theory Spec2Isabelle
  imports Complex_Main
begin

section \<open>Data model\<close>

text \<open>
  The main process (\<^verbatim>\<open>src/main/index.ts\<close>) keeps tasks in one SQLite table and deadline
  timers in a module-level \<^verbatim>\<open>Map\<close>. A row of the table is a record whose fields carry the
  column names (\<^verbatim>\<open>id\<close> is written \<open>task_id\<close>). \<^verbatim>\<open>session_type\<close> and \<^verbatim>\<open>status\<close> are TEXT
  columns and the handlers store whatever string arrives, so both are strings here.
  \<^verbatim>\<open>created_at\<close> and \<^verbatim>\<open>finished_at\<close> hold ISO strings of an instant; the model keeps the
  instant, in milliseconds since the epoch, as \<^verbatim>\<open>Date.now()\<close> counts them.
\<close>

record task =
  task_id :: int
  title :: string
  session_type :: string
  status :: string
  laps_total :: int
  laps_done :: int
  created_at :: int
  deadline :: "string option"
  finished_at :: "int option"
  points_base :: int
  points_bonus :: int
  points_penalty :: int
  points_total :: int
  points_session_type :: "string option"

text \<open>
  The result of JavaScript's \<^verbatim>\<open>Number(v)\<close>: a finite number, or one of NaN and the two
  infinities, which \<^verbatim>\<open>Number.isFinite\<close> rejects alike.
\<close>

datatype jsnum = Fin rat | NonFinite

text \<open>
  A JavaScript number where NaN and the infinities have to be told apart (NaN is falsy,
  an infinity is not). A finite double is kept as the rational it is equal to; the
  negative zero is kept as 0, from which no operation used here tells it apart.
\<close>

datatype js_number = Num rat | Infinity | NegInfinity | NaN

datatype error =
  TitleRequired | IdRequired | TaskNotFound | HttpError | NoRaces | FailedToFetch "error option"

text \<open>A pending \<^verbatim>\<open>setTimeout\<close> callback of the runtime, with what its closure captured.\<close>

record timer =
  handle :: nat
  for_task :: int
  body :: string
  fire_at :: int

text \<open>
  What the handlers read from the platform: \<^verbatim>\<open>new Date(y, monthIndex, d).getTime()\<close> in
  local time, \<^verbatim>\<open>new Date(s).getTime()\<close> of a date-time string (both None for an invalid date,
  whose time value is NaN), and \<^verbatim>\<open>Notification.isSupported()\<close>.
\<close>

record env =
  date_local :: "js_number \<Rightarrow> js_number \<Rightarrow> js_number \<Rightarrow> int option"
  parse_local :: "string \<Rightarrow> int option"
  notif_supported :: bool

text \<open>
  The state of the main process: the rows of \<^verbatim>\<open>tasks\<close> in insertion order, the
  AUTOINCREMENT counter of the table, the \<^verbatim>\<open>notifTimers\<close> map, the callbacks the runtime has
  armed, the next timer handle, and the notifications shown so far (task id and body).
\<close>

record world =
  task_rows :: "task list"
  seq :: int
  notifTimers :: "int \<Rightarrow> nat option"
  pending :: "timer list"
  next_handle :: nat
  shown :: "(int \<times> string) list"

record create_payload =
  c_title :: "string option"
  c_session_type :: "string option"
  c_status :: "string option"
  c_laps_total :: "jsnum option"
  c_laps_done :: "jsnum option"
  c_deadline :: "string option"

text \<open>
  A field of the update payload is None when it is \<^verbatim>\<open>undefined\<close>; \<open>u_deadline\<close> is
  \<open>Some None\<close> for an explicit \<^verbatim>\<open>null\<close>.
\<close>

record update_payload =
  u_id :: int
  u_title :: "string option"
  u_session_type :: "string option"
  u_status :: "string option"
  u_laps_total :: "jsnum option"
  u_laps_done :: "jsnum option"
  u_deadline :: "string option option"

section \<open>Helpers\<close>

definition trunc :: "rat \<Rightarrow> int" where
  "trunc q = (if 0 \<le> q then \<lfloor>q\<rfloor> else \<lceil>q\<rceil>)"

definition clampInt :: "jsnum \<Rightarrow> int \<Rightarrow> int \<Rightarrow> int" where
  "clampInt v mn mx =
     (case v of NonFinite \<Rightarrow> mn | Fin n \<Rightarrow> max mn (min mx (trunc n)))"

text \<open>
  Strings are kept as their UTF-8 bytes. \<open>js_whitespace\<close> lists the white space and line
  terminators of ECMAScript: U+0009 to U+000D, U+0020, U+00A0, U+1680, U+2000 to U+200A,
  U+2028, U+2029, U+202F, U+205F, U+3000 and U+FEFF. \<^verbatim>\<open>String.prototype.trim\<close> removes them
  at both ends.
\<close>

definition js_whitespace :: "string list" where
  "js_whitespace =
     [[CHR 0x09], [CHR 0x0A], [CHR 0x0B], [CHR 0x0C], [CHR 0x0D], [CHR 0x20],
      [CHR 0xC2, CHR 0xA0], [CHR 0xE1, CHR 0x9A, CHR 0x80], [CHR 0xE2, CHR 0x80, CHR 0x80],
      [CHR 0xE2, CHR 0x80, CHR 0x81], [CHR 0xE2, CHR 0x80, CHR 0x82],
      [CHR 0xE2, CHR 0x80, CHR 0x83], [CHR 0xE2, CHR 0x80, CHR 0x84],
      [CHR 0xE2, CHR 0x80, CHR 0x85], [CHR 0xE2, CHR 0x80, CHR 0x86],
      [CHR 0xE2, CHR 0x80, CHR 0x87], [CHR 0xE2, CHR 0x80, CHR 0x88],
      [CHR 0xE2, CHR 0x80, CHR 0x89], [CHR 0xE2, CHR 0x80, CHR 0x8A],
      [CHR 0xE2, CHR 0x80, CHR 0xA8], [CHR 0xE2, CHR 0x80, CHR 0xA9],
      [CHR 0xE2, CHR 0x80, CHR 0xAF], [CHR 0xE2, CHR 0x81, CHR 0x9F],
      [CHR 0xE3, CHR 0x80, CHR 0x80], [CHR 0xEF, CHR 0xBB, CHR 0xBF]]"

function strip :: "string list \<Rightarrow> string \<Rightarrow> string" where
  "strip pats s =
     (case find (\<lambda>p. p \<noteq> [] \<and> take (length p) s = p) pats of
        None \<Rightarrow> s
      | Some p \<Rightarrow> strip pats (drop (length p) s))"
  by pat_completeness auto
termination
proof (relation "measure (\<lambda>(pats, s). length s)")
  show "wf (measure (\<lambda>(pats, s). length s))" by simp
next
  fix pats :: "string list" and s p :: string
  assume "find (\<lambda>p. p \<noteq> [] \<and> take (length p) s = p) pats = Some p"
  then have "p \<noteq> []" and "take (length p) s = p" by (auto simp: find_Some_iff)
  then have "s \<noteq> []" and "0 < length p" by auto
  then show "((pats, drop (length p) s), (pats, s)) \<in> measure (\<lambda>(pats, s). length s)"
    by simp
qed

definition trim :: "string \<Rightarrow> string" where
  "trim s = rev (strip (map rev js_whitespace) (rev (strip js_whitespace s)))"

definition is_done :: "string \<Rightarrow> bool" where
  "is_done st = (st = ''finish'' \<or> st = ''dnf'')"

definition truthy :: "string option \<Rightarrow> bool" where
  "truthy v = (case v of None \<Rightarrow> False | Some s \<Rightarrow> s \<noteq> [])"

fun split_on :: "char \<Rightarrow> string \<Rightarrow> string list" where
  "split_on c [] = [[]]"
| "split_on c (x # xs) =
     (if x = c then [] # split_on c xs
      else (case split_on c xs of [] \<Rightarrow> [[x]] | p # ps \<Rightarrow> (x # p) # ps))"

text \<open>
  A number of ECMAScript is a double. \<open>to_double\<close> rounds a rational to the nearest double,
  ties to the even significand: the exponent is that of the value, at least -1022 (below
  it the doubles are evenly spaced), the significand has 53 bits, and a result of
  \<open>2 ^ 1024\<close> or more is an infinity.
\<close>

definition pow2 :: "int \<Rightarrow> rat" where
  "pow2 k = (if 0 \<le> k then 2 ^ nat k else 1 / 2 ^ nat (- k))"

function bit_length :: "int \<Rightarrow> int" where
  "bit_length n = (if n \<le> 0 then 0 else 1 + bit_length (n div 2))"
  by pat_completeness auto
termination
  by (relation "measure nat") auto

definition floor_log2 :: "rat \<Rightarrow> int" where
  "floor_log2 a =
     (let k = bit_length (fst (quotient_of a)) - bit_length (snd (quotient_of a))
      in if pow2 k \<le> a then k else k - 1)"

definition round_half_even :: "rat \<Rightarrow> int" where
  "round_half_even x =
     (let f = \<lfloor>x\<rfloor>; r = x - of_int f
      in if r < 1 / 2 then f else if 1 / 2 < r then f + 1 else if even f then f else f + 1)"

definition to_double :: "rat \<Rightarrow> js_number" where
  "to_double q =
     (if q = 0 then Num 0
      else
        (let a = \<bar>q\<bar>;
             ex = max (floor_log2 a) (- 1022);
             m = round_half_even (a / pow2 (ex - 52))
         in if 1023 < ex \<or> (ex = 1023 \<and> m = 2 ^ 53)
            then (if 0 < q then Infinity else NegInfinity)
            else Num ((if 0 < q then 1 else - 1) * of_int m * pow2 (ex - 52))))"

text \<open>
  \<^verbatim>\<open>Number(s)\<close> on a string: white space around the text is dropped; the empty text is 0;
  a hexadecimal, octal or binary literal is read without sign; otherwise an optional sign
  and \<^verbatim>\<open>Infinity\<close> or decimal digits with an optional fraction and exponent. Everything
  else is NaN. The value the text denotes is rounded to a double.
\<close>

definition digit_of :: "char \<Rightarrow> int option" where
  "digit_of c =
     (let n = int (of_char c :: nat) in
      if 48 \<le> n \<and> n \<le> 57 then Some (n - 48)
      else if 97 \<le> n \<and> n \<le> 102 then Some (n - 87)
      else if 65 \<le> n \<and> n \<le> 70 then Some (n - 55)
      else None)"

fun radix_val :: "int \<Rightarrow> int \<Rightarrow> string \<Rightarrow> int option" where
  "radix_val b acc [] = Some acc"
| "radix_val b acc (c # cs) =
     (case digit_of c of
        None \<Rightarrow> None
      | Some d \<Rightarrow> if d < b then radix_val b (b * acc + d) cs else None)"

definition digits :: "int \<Rightarrow> string \<Rightarrow> int option" where
  "digits b s = (if s = [] then None else radix_val b 0 s)"

definition is_digit :: "char \<Rightarrow> bool" where
  "is_digit c = (48 \<le> (of_char c :: nat) \<and> (of_char c :: nat) \<le> 57)"

definition pow10 :: "int \<Rightarrow> rat" where
  "pow10 n = (if 0 \<le> n then 10 ^ nat n else 1 / 10 ^ nat (- n))"

definition exponent :: "string \<Rightarrow> int option" where
  "exponent s =
     (case s of
        [] \<Rightarrow> Some 0
      | c # r \<Rightarrow>
          if c = CHR ''e'' \<or> c = CHR ''E'' then
            (case r of
               [] \<Rightarrow> None
             | g # ds \<Rightarrow>
                 if g = CHR ''-'' then map_option uminus (digits 10 ds)
                 else if g = CHR ''+'' then digits 10 ds
                 else digits 10 r)
          else None)"

definition unsigned_decimal :: "string \<Rightarrow> js_number" where
  "unsigned_decimal u =
     (if u = ''Infinity'' then Infinity
      else
        (let ip = takeWhile is_digit u;
             r1 = dropWhile is_digit u;
             dot = (case r1 of [] \<Rightarrow> False | c # _ \<Rightarrow> c = CHR ''.'');
             fp = (if dot then takeWhile is_digit (tl r1) else []);
             r2 = (if dot then dropWhile is_digit (tl r1) else r1)
         in if ip = [] \<and> fp = [] then NaN
            else (case exponent r2 of
                    None \<Rightarrow> NaN
                  | Some x \<Rightarrow>
                      to_double
                        ((of_int (the (radix_val 10 0 ip))
                          + of_int (the (radix_val 10 0 fp)) * pow10 (- int (length fp)))
                         * pow10 x))))"

definition js_neg :: "js_number \<Rightarrow> js_number" where
  "js_neg v =
     (case v of
        Num q \<Rightarrow> Num (- q)
      | Infinity \<Rightarrow> NegInfinity
      | NegInfinity \<Rightarrow> Infinity
      | NaN \<Rightarrow> NaN)"

definition js_Number :: "string \<Rightarrow> js_number" where
  "js_Number s =
     (let t = trim s in
      case t of
        [] \<Rightarrow> Num 0
      | c # r \<Rightarrow>
          if take 2 t = ''0x'' \<or> take 2 t = ''0X'' then
            (case digits 16 (drop 2 t) of None \<Rightarrow> NaN | Some n \<Rightarrow> to_double (of_int n))
          else if take 2 t = ''0o'' \<or> take 2 t = ''0O'' then
            (case digits 8 (drop 2 t) of None \<Rightarrow> NaN | Some n \<Rightarrow> to_double (of_int n))
          else if take 2 t = ''0b'' \<or> take 2 t = ''0B'' then
            (case digits 2 (drop 2 t) of None \<Rightarrow> NaN | Some n \<Rightarrow> to_double (of_int n))
          else if c = CHR ''-'' then js_neg (unsigned_decimal r)
          else if c = CHR ''+'' then unsigned_decimal r
          else unsigned_decimal t)"

text \<open>\<^verbatim>\<open>x || 1\<close> on a number that may be missing (None), NaN or 0, and \<^verbatim>\<open>x - 1\<close>.\<close>

definition or_one :: "js_number option \<Rightarrow> js_number" where
  "or_one v =
     (case v of
        None \<Rightarrow> Num 1
      | Some NaN \<Rightarrow> Num 1
      | Some Infinity \<Rightarrow> Infinity
      | Some NegInfinity \<Rightarrow> NegInfinity
      | Some (Num q) \<Rightarrow> if q = 0 then Num 1 else Num q)"

definition minus_one :: "js_number \<Rightarrow> js_number" where
  "minus_one v =
     (case v of
        Num q \<Rightarrow> to_double (q - 1)
      | Infinity \<Rightarrow> Infinity
      | NegInfinity \<Rightarrow> NegInfinity
      | NaN \<Rightarrow> NaN)"

text \<open>
  \<^verbatim>\<open>ymd.split("-").map(Number)\<close>, destructured into year, month and day (a missing piece
  is \<^verbatim>\<open>undefined\<close>), then \<^verbatim>\<open>new Date(y, (m || 1) - 1, d || 1)\<close>.
\<close>

definition ymdToDate :: "env \<Rightarrow> string \<Rightarrow> int option" where
  "ymdToDate e ymd =
     (let ps = map js_Number (split_on CHR ''-'' ymd);
          y = (case ps of [] \<Rightarrow> NaN | a # _ \<Rightarrow> a);
          m = (case ps of _ # b # _ \<Rightarrow> Some b | _ \<Rightarrow> None);
          d = (case ps of _ # _ # c # _ \<Rightarrow> Some c | _ \<Rightarrow> None)
      in date_local e y (minus_one (or_one m)) (or_one d))"

text \<open>
  \<^verbatim>\<open>Math.floor(diffMs / 86400000)\<close>; None when the deadline is an invalid date and the
  difference is NaN.
\<close>

definition isLateByDays :: "env \<Rightarrow> string \<Rightarrow> int \<Rightarrow> int option" where
  "isLateByDays e deadlineYmd finished =
     (case ymdToDate e deadlineYmd of None \<Rightarrow> None
      | Some dl \<Rightarrow> Some ((finished - dl) div (1000 * 60 * 60 * 24)))"

definition basePoints :: "string \<Rightarrow> int" where
  "basePoints sessionType =
     (if sessionType = ''race'' then 25
      else if sessionType = ''sprint'' then 8
      else if sessionType = ''qualifying'' then 3
      else if sessionType = ''pit'' then 2
      else if sessionType = ''practice'' then 1
      else if sessionType = ''parc'' then 1
      else 0)"

section \<open>The notification timers\<close>

definition clearTimeout :: "nat \<Rightarrow> world \<Rightarrow> world" where
  "clearTimeout h w = w\<lparr>pending := filter (\<lambda>t. handle t \<noteq> h) (pending w)\<rparr>"

definition clearNotif :: "int \<Rightarrow> world \<Rightarrow> world" where
  "clearNotif i w =
     (let w1 = (case notifTimers w i of None \<Rightarrow> w | Some h \<Rightarrow> clearTimeout h w)
      in w1\<lparr>notifTimers := (notifTimers w1)(i := None)\<rparr>)"

text \<open>
  \<^verbatim>\<open>setTimeout(cb, ms)\<close> at time \<open>now\<close>: a new handle and a new pending callback. The
  runtime replaces a delay that is NaN (None), below 1 or above 2147483647 by 1.
\<close>

definition setTimeout :: "int \<Rightarrow> string \<Rightarrow> int option \<Rightarrow> int \<Rightarrow> world \<Rightarrow> nat \<times> world" where
  "setTimeout i b ms now w =
     (let delay = (case ms of None \<Rightarrow> 1
                   | Some d \<Rightarrow> if d < 1 \<or> d > 2147483647 then 1 else d)
      in (next_handle w,
          w\<lparr>pending := pending w @
                [\<lparr>handle = next_handle w, for_task = i, body = b, fire_at = now + delay\<rparr>],
            next_handle := Suc (next_handle w)\<rparr>))"

text \<open>
  The delay \<open>ms\<close> is NaN when the deadline is not a date; NaN is not \<^verbatim>\<open><= 0\<close>, so the timer
  is armed all the same.
\<close>

definition scheduleDeadlineNotif :: "env \<Rightarrow> int \<Rightarrow> task \<Rightarrow> world \<Rightarrow> world" where
  "scheduleDeadlineNotif e now t w =
     (let w1 = clearNotif (task_id t) w in
      if \<not> truthy (deadline t) then w1
      else if status t = ''finish'' \<or> status t = ''dnf'' then w1
      else
        (let target = parse_local e (the (deadline t) @ ''T10:00:00'');
             ms = (case target of None \<Rightarrow> None | Some tg \<Rightarrow> Some (tg - now))
         in if (case ms of None \<Rightarrow> False | Some d \<Rightarrow> d \<le> 0) then w1
            else
              (let (h, w2) = setTimeout (task_id t) (title t) ms now w1
               in w2\<lparr>notifTimers := (notifTimers w2)(task_id t \<mapsto> h)\<rparr>)))"

text \<open>
  The runtime runs the callback of timer \<open>h\<close> once it is due: it drops the one-shot
  timer, the notification is shown when the platform supports it, and the map entry of
  the task is cleared. A timer that is not pending, or not yet due, does nothing.
\<close>

definition timer_fire :: "env \<Rightarrow> int \<Rightarrow> nat \<Rightarrow> world \<Rightarrow> world" where
  "timer_fire e now h w =
     (case find (\<lambda>t. handle t = h) (pending w) of
        None \<Rightarrow> w
      | Some t \<Rightarrow>
          if now < fire_at t then w
          else
            (let w1 = clearTimeout h w;
                 w2 = (if notif_supported e
                       then w1\<lparr>shown := shown w1 @ [(for_task t, body t)]\<rparr> else w1)
             in clearNotif (for_task t) w2))"

section \<open>The task handlers\<close>

definition select_task :: "world \<Rightarrow> int \<Rightarrow> task option" where
  "select_task w i = find (\<lambda>t. task_id t = i) (task_rows w)"

definition update_row :: "int \<Rightarrow> (task \<Rightarrow> task) \<Rightarrow> world \<Rightarrow> world" where
  "update_row i f w = w\<lparr>task_rows := map (\<lambda>t. if task_id t = i then f t else t) (task_rows w)\<rparr>"

text \<open>
  \<^verbatim>\<open>INTEGER PRIMARY KEY AUTOINCREMENT\<close>: the new id is one more than the largest id the
  table has ever held.
\<close>

definition lastInsertRowid :: "world \<Rightarrow> int" where
  "lastInsertRowid w = fold max (map task_id (task_rows w)) (seq w) + 1"

definition tasks_create :: "env \<Rightarrow> int \<Rightarrow> create_payload \<Rightarrow> world \<Rightarrow> error + (int \<times> world)" where
  "tasks_create e now p w =
     (let ttl = trim (case c_title p of None \<Rightarrow> [] | Some s \<Rightarrow> s) in
      if ttl = [] then Inl TitleRequired
      else
        (let st = (case c_session_type p of None \<Rightarrow> ''sprint'' | Some s \<Rightarrow> s);
             stat = (case c_status p of None \<Rightarrow> ''start'' | Some s \<Rightarrow> s);
             lt = clampInt (case c_laps_total p of None \<Rightarrow> Fin 1 | Some v \<Rightarrow> v) 1 999;
             ld = clampInt (case c_laps_done p of None \<Rightarrow> Fin 0 | Some v \<Rightarrow> v) 0 lt;
             i = lastInsertRowid w;
             created = \<lparr>task_id = i, title = ttl, session_type = st, status = stat,
                        laps_total = lt, laps_done = ld, created_at = now,
                        deadline = c_deadline p, finished_at = None,
                        points_base = 0, points_bonus = 0, points_penalty = 0,
                        points_total = 0, points_session_type = Some st\<rparr>;
             w1 = w\<lparr>task_rows := task_rows w @ [created], seq := i\<rparr>
         in Inr (i, scheduleDeadlineNotif e now created w1)))"

definition tasks_rescheduleNotifications :: "env \<Rightarrow> int \<Rightarrow> world \<Rightarrow> world" where
  "tasks_rescheduleNotifications e now w = fold (scheduleDeadlineNotif e now) (task_rows w) w"

text \<open>
  The values \<^verbatim>\<open>tasks:update\<close> binds to its UPDATE statement, computed from the payload and
  the row \<open>current\<close> it has just read, written into a row \<open>r\<close>. Only the seven columns of
  the statement change.
\<close>

definition update_fields :: "update_payload \<Rightarrow> task \<Rightarrow> task \<Rightarrow> task" where
  "update_fields p current r =
     (let ttl = (case u_title p of Some s \<Rightarrow> trim s | None \<Rightarrow> title current);
          st = (case u_session_type p of Some s \<Rightarrow> s | None \<Rightarrow> session_type current);
          stat = (case u_status p of Some s \<Rightarrow> s | None \<Rightarrow> status current);
          pst0 = (case points_session_type current of
                    Some s \<Rightarrow> s | None \<Rightarrow> session_type current);
          doneNow = (stat = ''finish'' \<or> stat = ''dnf'');
          pst = (if \<not> doneNow \<and> u_session_type p \<noteq> None then st else pst0);
          lt = (case u_laps_total p of Some v \<Rightarrow> clampInt v 1 999
                | None \<Rightarrow> laps_total current);
          ld = (case u_laps_done p of Some v \<Rightarrow> clampInt v 0 lt
                | None \<Rightarrow> laps_done current);
          dl = (case u_deadline p of Some v \<Rightarrow> v | None \<Rightarrow> deadline current)
      in r\<lparr>title := ttl, session_type := st, status := stat,
            laps_total := lt, laps_done := ld, deadline := dl,
            points_session_type := Some pst\<rparr>)"

text \<open>
  The handler reads the row back after the UPDATE and passes it to the scheduler; the row
  read back is \<open>current\<close> with the seven columns written.
\<close>

definition tasks_update :: "env \<Rightarrow> int \<Rightarrow> update_payload \<Rightarrow> world \<Rightarrow> error + world" where
  "tasks_update e now p w =
     (if u_id p = 0 then Inl IdRequired
      else case select_task w (u_id p) of
        None \<Rightarrow> Inl TaskNotFound
      | Some current \<Rightarrow>
         (let w1 = update_row (u_id p) (update_fields p current) w;
              updated = update_fields p current current
          in Inr (scheduleDeadlineNotif e now updated w1)))"

definition finish_fields :: "env \<Rightarrow> int \<Rightarrow> task \<Rightarrow> task \<Rightarrow> task" where
  "finish_fields e finishedAt t r =
     (let scoreType = (if truthy (points_session_type t)
                       then the (points_session_type t) else session_type t);
          base = basePoints scoreType;
          penalty = (if truthy (deadline t)
                     then (case isLateByDays e (the (deadline t)) finishedAt of
                             None \<Rightarrow> 0
                           | Some lateDays \<Rightarrow> if lateDays \<ge> 3 then 0 - 5 else 0)
                     else 0);
          total = base + penalty
      in r\<lparr>status := ''finish'', session_type := ''parc'',
            finished_at := Some finishedAt, points_base := base,
            points_bonus := 0, points_penalty := penalty,
            points_total := total\<rparr>)"

definition tasks_finish :: "env \<Rightarrow> int \<Rightarrow> int \<Rightarrow> world \<Rightarrow> error + world" where
  "tasks_finish e now i w =
     (case select_task w i of
        None \<Rightarrow> Inl TaskNotFound
      | Some t \<Rightarrow> Inr (clearNotif i (update_row i (finish_fields e now t) w)))"

definition dnf_fields :: "int \<Rightarrow> task \<Rightarrow> task" where
  "dnf_fields finishedAt r =
     (let penalty = - 5
      in r\<lparr>status := ''dnf'', session_type := ''parc'',
            finished_at := Some finishedAt, points_base := 0,
            points_bonus := 0, points_penalty := penalty,
            points_total := penalty\<rparr>)"

definition tasks_dnf :: "env \<Rightarrow> int \<Rightarrow> int \<Rightarrow> world \<Rightarrow> error + world" where
  "tasks_dnf e now i w =
     (case select_task w i of
        None \<Rightarrow> Inl TaskNotFound
      | Some t \<Rightarrow> Inr (clearNotif i (update_row i (dnf_fields now) w)))"

definition tasks_delete :: "int \<Rightarrow> world \<Rightarrow> world" where
  "tasks_delete i w = clearNotif i (w\<lparr>task_rows := filter (\<lambda>t. task_id t \<noteq> i) (task_rows w)\<rparr>)"

section \<open>The command channel\<close>

text \<open>
  One request of the renderer to the main process (\<^verbatim>\<open>ipcRenderer.invoke\<close> on the channels
  \<^verbatim>\<open>tasks:create\<close>, \<^verbatim>\<open>tasks:update\<close>, \<^verbatim>\<open>tasks:finish\<close>, \<^verbatim>\<open>tasks:dnf\<close>, \<^verbatim>\<open>tasks:delete\<close>,
  \<^verbatim>\<open>tasks:rescheduleNotifications\<close>), or the runtime running the callback of a timer.
  No handler awaits between its reads and writes, so each runs as one step. A handler
  that throws has written nothing: the state stays as it was.
\<close>

datatype op =
  Create create_payload | Update update_payload | Finish int | Dnf int | Delete int
  | Reschedule | Fire nat

definition step :: "env \<Rightarrow> int \<Rightarrow> op \<Rightarrow> world \<Rightarrow> world" where
  "step e now c w =
     (case c of
        Create p \<Rightarrow> (case tasks_create e now p w of Inl _ \<Rightarrow> w | Inr (_, w') \<Rightarrow> w')
      | Update p \<Rightarrow> (case tasks_update e now p w of Inl _ \<Rightarrow> w | Inr w' \<Rightarrow> w')
      | Finish i \<Rightarrow> (case tasks_finish e now i w of Inl _ \<Rightarrow> w | Inr w' \<Rightarrow> w')
      | Dnf i \<Rightarrow> (case tasks_dnf e now i w of Inl _ \<Rightarrow> w | Inr w' \<Rightarrow> w')
      | Delete i \<Rightarrow> tasks_delete i w
      | Reschedule \<Rightarrow> tasks_rescheduleNotifications e now w
      | Fire h \<Rightarrow> timer_fire e now h w)"

text \<open>A history: the requests in the order they are served, each with its clock reading.\<close>

definition run :: "env \<Rightarrow> (int \<times> op) list \<Rightarrow> world \<Rightarrow> world" where
  "run e evs w = fold (\<lambda>(now, c). step e now c) evs w"

text \<open>A fresh install: \<^verbatim>\<open>initDb\<close> has created an empty table and no timer is armed.\<close>

definition empty_world :: world where
  "empty_world = \<lparr>task_rows = [], seq = 0, notifTimers = (\<lambda>_. None), pending = [],
                   next_handle = 0, shown = []\<rparr>"

section \<open>The renderer's lap button\<close>

text \<open>
  \<^verbatim>\<open>incLap\<close> of the renderer builds the payload it sends to \<^verbatim>\<open>tasks:update\<close> from the task
  as the renderer last read it.
\<close>

definition incLap :: "task \<Rightarrow> update_payload" where
  "incLap t =
     \<lparr>u_id = task_id t, u_title = None, u_session_type = None, u_status = Some ''progress'',
      u_laps_total = None,
      u_laps_done = Some (Fin (of_int (clampInt (Fin (of_int (laps_done t + 1))) 0 (laps_total t)))),
      u_deadline = None\<rparr>"


section \<open>The points rules of the renderer\<close>

text \<open>
  The settings page of the renderer keeps a \<^verbatim>\<open>PointsRules\<close> value in its local storage and
  offers it to the main process through the optional \<^verbatim>\<open>window.api.setPointsRules\<close>, which the
  preload script does not define. \<open>DEFAULT_POINTS_RULES\<close> is the renderer's constant.
\<close>

record PointsRules =
  rule_base :: "string \<Rightarrow> int"
  latePenaltyAfterDays :: int
  latePenaltyPoints :: int
  dnfPenaltyPoints :: int

definition DEFAULT_POINTS_RULES :: PointsRules where
  "DEFAULT_POINTS_RULES =
     \<lparr>rule_base = (\<lambda>s. if s = ''practice'' then 1 else if s = ''qualifying'' then 2
                        else if s = ''sprint'' then 3 else if s = ''race'' then 5
                        else if s = ''pit'' then 1 else 0),
      latePenaltyAfterDays = 3, latePenaltyPoints = - 5, dnfPenaltyPoints = - 3\<rparr>"

section \<open>The race calendar\<close>

text \<open>
  One element of \<^verbatim>\<open>MRData.RaceTable.Races\<close> as the handlers read it; a field that is missing
  is None. An upstream answer is either a failure (no connection, the 10 second abort,
  a status that is not ok, a body that is not JSON) or a body with its list of races,
  which is empty also when the path to it is missing.
\<close>

record raw_race =
  r_round :: jsnum
  r_raceName :: "string option"
  r_circuitName :: "string option"
  r_locality :: "string option"
  r_country :: "string option"
  r_date :: "string option"
  r_time :: "string option"

datatype response = Failed | Json "raw_race list"

record NextGp =
  gp_name :: string
  gp_location :: string
  gp_dateTimeISO :: string

record F1Race =
  round_no :: jsnum
  raceName :: string
  circuitName :: string
  locality :: string
  country :: string
  date :: string
  dateTimeISO :: string

text \<open>\<^verbatim>\<open>String(x || d)\<close> and \<^verbatim>\<open>String(x)\<close> on a field that may be missing.\<close>

definition str_or :: "string option \<Rightarrow> string \<Rightarrow> string" where
  "str_or x d = (case x of None \<Rightarrow> d | Some s \<Rightarrow> if s = [] then d else s)"

definition js_String :: "string option \<Rightarrow> string" where
  "js_String x = (case x of None \<Rightarrow> ''undefined'' | Some s \<Rightarrow> s)"

fun join :: "string \<Rightarrow> string list \<Rightarrow> string" where
  "join sep [] = []"
| "join sep [x] = x"
| "join sep (x # y # ys) = x @ sep @ join sep (y # ys)"

definition toNextGp :: "raw_race \<Rightarrow> NextGp" where
  "toNextGp race =
     \<lparr>gp_name = str_or (r_raceName race) ''Grand Prix'',
      gp_location = join '', '' (filter (\<lambda>s. s \<noteq> [])
                                   [str_or (r_locality race) [], str_or (r_country race) []]),
      gp_dateTimeISO = js_String (r_date race) @ ''T'' @ str_or (r_time race) ''00:00:00Z''\<rparr>"

definition endpoints :: "string list" where
  "endpoints = [''https://api.jolpi.ca/ergast/f1/current/next.json'',
                ''https://ergast.com/api/f1/current/next.json'']"

fun f1_next_loop :: "(string \<Rightarrow> response) \<Rightarrow> string list \<Rightarrow> error option \<Rightarrow> error + NextGp" where
  "f1_next_loop net [] lastErr = Inl (FailedToFetch lastErr)"
| "f1_next_loop net (url # urls) lastErr =
     (case net url of
        Failed \<Rightarrow> f1_next_loop net urls (Some HttpError)
      | Json races \<Rightarrow>
          (case races of
             [] \<Rightarrow> f1_next_loop net urls (Some NoRaces)
           | race # _ \<Rightarrow> Inr (toNextGp race)))"

definition f1_next :: "(string \<Rightarrow> response) \<Rightarrow> error + NextGp" where
  "f1_next net = f1_next_loop net endpoints None"

definition toF1Race :: "raw_race \<Rightarrow> F1Race" where
  "toF1Race r =
     \<lparr>round_no = r_round r,
      raceName = str_or (r_raceName r) ''Grand Prix'',
      circuitName = str_or (r_circuitName r) [],
      locality = str_or (r_locality r) [],
      country = str_or (r_country r) [],
      date = js_String (r_date r),
      dateTimeISO = js_String (r_date r) @ ''T'' @ str_or (r_time r) ''00:00:00Z''\<rparr>"

definition schedule_url :: "string \<Rightarrow> string" where
  "schedule_url season = ''https://api.jolpi.ca/ergast/f1/'' @ season @ ''.json''"

definition f1_schedule :: "(string \<Rightarrow> response) \<Rightarrow> string \<Rightarrow> error + F1Race list" where
  "f1_schedule net season =
     (case net (schedule_url season) of
        Failed \<Rightarrow> Inl HttpError
      | Json races \<Rightarrow> Inr (map toF1Race races))"

section \<open>The renderer's caches\<close>

text \<open>
  The renderer keeps both caches in its local storage as \<^verbatim>\<open>{ts, data}\<close>. \<open>fetches\<close>
  counts the requests the renderer has sent to \<^verbatim>\<open>f1:next\<close> and \<^verbatim>\<open>f1:schedule\<close>, each of which
  goes to the network.
\<close>

record renderer =
  nextGp :: "NextGp option"
  gpError :: "error option"
  ls_gp_cache :: "(int \<times> NextGp) option"
  f1Races :: "F1Race list"
  f1Err :: "error option"
  ls_schedule_cache :: "(int \<times> F1Race list) option"
  fetches :: nat

definition day_ms :: int where
  "day_ms = 24 * 3600 * 1000"

definition loadF1Cache :: "int \<Rightarrow> renderer \<Rightarrow> NextGp option" where
  "loadF1Cache now r =
     (case ls_gp_cache r of None \<Rightarrow> None
      | Some (ts, data) \<Rightarrow> if now - ts > day_ms then None else Some data)"

definition saveF1Cache :: "int \<Rightarrow> NextGp \<Rightarrow> renderer \<Rightarrow> renderer" where
  "saveF1Cache now data r = r\<lparr>ls_gp_cache := Some (now, data)\<rparr>"

definition fetchNextGp :: "int \<Rightarrow> (string \<Rightarrow> response) \<Rightarrow> renderer \<Rightarrow> renderer" where
  "fetchNextGp now net r =
     (let r1 = r\<lparr>gpError := None, fetches := Suc (fetches r)\<rparr> in
      case f1_next net of
        Inr next \<Rightarrow> saveF1Cache now next (r1\<lparr>nextGp := Some next\<rparr>)
      | Inl err \<Rightarrow> r1\<lparr>gpError := Some err\<rparr>)"

text \<open>The effect that runs once when the application window mounts.\<close>

definition mount_gp :: "int \<Rightarrow> (string \<Rightarrow> response) \<Rightarrow> renderer \<Rightarrow> renderer" where
  "mount_gp now net r =
     (case loadF1Cache now r of
        Some cached \<Rightarrow> r\<lparr>nextGp := Some cached\<rparr>
      | None \<Rightarrow> fetchNextGp now net r)"

text \<open>The initial value of the \<^verbatim>\<open>f1Races\<close> state, read from the local storage at mount.\<close>

definition init_f1Races :: "int \<Rightarrow> renderer \<Rightarrow> renderer" where
  "init_f1Races now r =
     r\<lparr>f1Races := (case ls_schedule_cache r of None \<Rightarrow> []
                    | Some (ts, data) \<Rightarrow> if now - ts > day_ms then [] else data)\<rparr>"

definition loadF1Schedule :: "int \<Rightarrow> (string \<Rightarrow> response) \<Rightarrow> renderer \<Rightarrow> renderer" where
  "loadF1Schedule now net r =
     (let r1 = r\<lparr>f1Err := None, fetches := Suc (fetches r)\<rparr> in
      case f1_schedule net ''current'' of
        Inr races \<Rightarrow> r1\<lparr>f1Races := races, ls_schedule_cache := Some (now, races)\<rparr>
      | Inl err \<Rightarrow> r1\<lparr>f1Err := Some err\<rparr>)"

text \<open>The effect that runs when the page becomes the calendar.\<close>

definition open_calendar :: "int \<Rightarrow> (string \<Rightarrow> response) \<Rightarrow> renderer \<Rightarrow> renderer" where
  "open_calendar now net r = (if f1Races r = [] then loadF1Schedule now net r else r)"

text \<open>
  The calendar page of a window that mounts at \<open>now\<close>: the state is read from the local
  storage, then the page effect runs.
\<close>

definition show_calendar :: "int \<Rightarrow> (string \<Rightarrow> response) \<Rightarrow> renderer \<Rightarrow> renderer" where
  "show_calendar now net r = open_calendar now net (init_f1Races now r)"

section \<open>Concrete inputs\<close>

text \<open>
  A host whose local time is UTC. \<open>days_from_civil\<close> counts the days from 1 January 1970
  to a date of the proleptic Gregorian calendar. \<open>utc_date\<close> is the constructor
  \<^verbatim>\<open>new Date(y, monthIndex, d)\<close> of ECMAScript there: an argument that is not finite gives
  an invalid date, the arguments are truncated, a year from 0 to 99 means 1900 to 1999,
  months beyond the year and days beyond the month carry over, and a time value beyond
  8.64e15 is invalid. \<open>utc_parse\<close> reads the date-time format \<^verbatim>\<open>YYYY-MM-DDTHH:mm:ss\<close> of
  ECMAScript as local time, with the month from 01 to 12 and the day from 01 to 31, days
  beyond the month carrying over; this host takes every other string as an invalid date.
\<close>

definition days_from_civil :: "int \<Rightarrow> int \<Rightarrow> int \<Rightarrow> int" where
  "days_from_civil y m d =
     (let y1 = (if m \<le> 2 then y - 1 else y);
          era = y1 div 400;
          yoe = y1 - era * 400;
          mp = (m + 9) mod 12;
          doy = (153 * mp + 2) div 5 + d - 1;
          doe = yoe * 365 + yoe div 4 - yoe div 100 + doy
      in era * 146097 + doe - 719468)"

definition time_clip :: "int \<Rightarrow> int option" where
  "time_clip tv = (if abs tv > 8640000000000000 then None else Some tv)"

definition utc_date :: "js_number \<Rightarrow> js_number \<Rightarrow> js_number \<Rightarrow> int option" where
  "utc_date y m d =
     (case (y, m, d) of
        (Num yq, Num mq, Num dq) \<Rightarrow>
          (let yi = trunc yq;
               yr = (if 0 \<le> yi \<and> yi \<le> 99 then 1900 + yi else yi);
               mi = trunc mq;
               ym = yr + mi div 12;
               mn = mi mod 12;
               day = days_from_civil ym (mn + 1) 1 + trunc dq - 1
           in time_clip (day * 86400000))
      | _ \<Rightarrow> None)"

definition utc_parse :: "string \<Rightarrow> int option" where
  "utc_parse s =
     (if length s = 19 \<and> s ! 4 = CHR ''-'' \<and> s ! 7 = CHR ''-'' \<and> s ! 10 = CHR ''T'' \<and>
         s ! 13 = CHR '':'' \<and> s ! 16 = CHR '':''
      then
        (case map (digits 10) [take 4 s, take 2 (drop 5 s), take 2 (drop 8 s),
                                take 2 (drop 11 s), take 2 (drop 14 s), take 2 (drop 17 s)] of
           [Some y, Some mo, Some d, Some h, Some mi, Some sec] \<Rightarrow>
             if 1 \<le> mo \<and> mo \<le> 12 \<and> 1 \<le> d \<and> d \<le> 31 \<and> mi \<le> 59 \<and> sec \<le> 59 \<and>
                (if h = 24 then mi = 0 \<and> sec = 0 else h \<le> 23)
             then time_clip ((days_from_civil y mo 1 + d - 1) * 86400000
                             + h * 3600000 + mi * 60000 + sec * 1000)
             else None
         | _ \<Rightarrow> None)
      else None)"

definition utc_env :: env where
  "utc_env = \<lparr>date_local = utc_date, parse_local = utc_parse, notif_supported = True\<rparr>"

definition new_task :: "string \<Rightarrow> string \<Rightarrow> string option \<Rightarrow> create_payload" where
  "new_task ttl bucket dl =
     \<lparr>c_title = Some ttl, c_session_type = Some bucket, c_status = Some ''start'',
      c_laps_total = Some (Fin 1), c_laps_done = Some (Fin 0), c_deadline = dl\<rparr>"

definition no_change :: "int \<Rightarrow> update_payload" where
  "no_change i =
     \<lparr>u_id = i, u_title = None, u_session_type = None, u_status = None,
      u_laps_total = None, u_laps_done = None, u_deadline = None\<rparr>"

text \<open>The histories the concrete checks below run.\<close>

definition finished_history :: "(int \<times> op) list" where
  "finished_history = [(0, Create (new_task ''report'' ''race'' None)), (1, Finish 1)]"

definition later_history :: "(int \<times> op) list" where
  "later_history =
     [(2, Update ((no_change 1)\<lparr>u_title := Some ''report v2''\<rparr>)),
      (3, Create (new_task ''slides'' ''pit'' None)),
      (4, Reschedule)]"

definition scored_history :: "(int \<times> op) list" where
  "scored_history =
     [(0, Create (new_task ''report'' ''race'' None)),
      (1, Create (new_task ''slides'' ''sprint'' (Some ''1970-01-01''))),
      (2, Update (incLap (the (select_task
             (run utc_env [(0, Create (new_task ''report'' ''race'' None))] empty_world) 1)))),
      (400000000, Finish 2),
      (400000001, Create (new_task ''mail'' ''pit'' None)),
      (400000002, Dnf 3)]"

definition dnf_history :: "(int \<times> op) list" where
  "dnf_history = [(0, Create (new_task ''report'' ''race'' None)), (1, Dnf 1)]"

definition sprint_history :: "(int \<times> op) list" where
  "sprint_history = [(0, Create (new_task ''slides'' ''sprint'' (Some ''2024-03-01'')))]"


text \<open>
  1 March 2024 begins at 1709251200000 and its 10:00 is 1709287200000 on the UTC host.
\<close>

definition armed_history :: "(int \<times> op) list" where
  "armed_history =
     [(1709251200000, Create (new_task ''slides'' ''sprint'' (Some ''2024-03-01''))),
      (1709251200001, Create (new_task ''mail'' ''pit'' (Some ''2024-03-01'')))]"

definition quiet_history :: "(int \<times> op) list" where
  "quiet_history =
     [(1709251200003, Update ((no_change 1)\<lparr>u_title := Some ''slides v2''\<rparr>)),
      (1709251200004, Reschedule),
      (1709287200000, Fire 2)]"

definition deadline_history :: "(int \<times> op) list" where
  "deadline_history =
     [(1709251200000, Create (new_task ''slides'' ''sprint'' (Some ''2024-03-01''))),
      (1709251200001, Finish 1)]"

text \<open>
  A task that is given up on the day of its deadline, beside a second task; a history in
  which no update re-opens a terminal task, cut at the request that finishes task 1; and
  a finished task that the lap button re-opened.
\<close>

definition late_dnf_history :: "(int \<times> op) list" where
  "late_dnf_history =
     [(1709251200000, Create (new_task ''report'' ''race'' (Some ''2024-03-01''))),
      (1709251200001, Create (new_task ''mail'' ''pit'' None)),
      (1709251200002, Dnf 1)]"





text \<open>A window on an empty local storage, two races, upstream behaviours, and a window with
  both cache entries written at time 0.\<close>

definition new_window :: renderer where
  "new_window = \<lparr>nextGp = None, gpError = None, ls_gp_cache = None, f1Races = [],
                  f1Err = None, ls_schedule_cache = None, fetches = 0\<rparr>"

definition monza :: raw_race where
  "monza = \<lparr>r_round = Fin 16, r_raceName = Some ''Italian Grand Prix'',
             r_circuitName = Some ''Autodromo Nazionale di Monza'', r_locality = Some ''Monza'',
             r_country = Some ''Italy'', r_date = Some ''2024-09-01'',
             r_time = Some ''13:00:00Z''\<rparr>"

definition baku :: raw_race where
  "baku = \<lparr>r_round = Fin 17, r_raceName = None, r_circuitName = None, r_locality = Some ''Baku'',
            r_country = None, r_date = Some ''2024-09-15'', r_time = None\<rparr>"

definition feed_up :: "string \<Rightarrow> response" where
  "feed_up url = Json [monza, baku]"

definition feed_empty :: "string \<Rightarrow> response" where
  "feed_empty url = Json []"

definition feed_down :: "string \<Rightarrow> response" where
  "feed_down url = Failed"

definition feed_second :: "string \<Rightarrow> response" where
  "feed_second url = (if url = ''https://ergast.com/api/f1/current/next.json''
                      then Json [baku] else Json [])"

definition cached_window :: renderer where
  "cached_window = new_window\<lparr>ls_schedule_cache := Some (0, [toF1Race monza]),
                              ls_gp_cache := Some (0, toNextGp monza)\<rparr>"

section \<open>Auxiliary notions\<close>

text \<open>An answer that counts: a body with at least one race.\<close>

definition has_fixture :: "response \<Rightarrow> bool" where
  "has_fixture resp = (case resp of Failed \<Rightarrow> False | Json races \<Rightarrow> races \<noteq> [])"

text \<open>
  The UPDATE of one id as a function on the list of rows, and the SELECT of one id from
  it.
\<close>

definition set_row :: "int \<Rightarrow> (task \<Rightarrow> task) \<Rightarrow> task list \<Rightarrow> task list" where
  "set_row i f rows = map (\<lambda>t. if task_id t = i then f t else t) rows"

definition row_of :: "task list \<Rightarrow> int \<Rightarrow> task option" where
  "row_of rows i = find (\<lambda>t. task_id t = i) rows"

text \<open>
  Every pending timer is the one the map holds for its task, and handles are not reused.
\<close>

definition timers_ok :: "world \<Rightarrow> bool" where
  "timers_ok w =
     ((\<forall>t \<in> set (pending w). notifTimers w (for_task t) = Some (handle t) \<and>
                              handle t < next_handle w) \<and>
      distinct (map handle (pending w)))"

text \<open>
  Task \<open>i\<close> is at rest: its id has been given out, its rows are terminal, no timer is
  pending for it, and the notifications shown beyond \<open>base\<close> are for other tasks. A
  request is harmless for \<open>i\<close> unless it is an update of \<open>i\<close> that carries a status that
  is not terminal.
\<close>

definition disarmed :: "int \<Rightarrow> (int \<times> string) list \<Rightarrow> world \<Rightarrow> bool" where
  "disarmed i base w =
     (i \<le> seq w \<and>
      (\<forall>t \<in> set (task_rows w). task_id t = i \<longrightarrow> is_done (status t)) \<and>
      (\<forall>t \<in> set (pending w). for_task t \<noteq> i) \<and>
      (\<exists>new. shown w = base @ new \<and> (\<forall>x \<in> set new. fst x \<noteq> i)))"

definition harmless :: "int \<Rightarrow> op \<Rightarrow> bool" where
  "harmless i c =
     (\<forall>p. c = Update p \<longrightarrow> u_id p = i \<longrightarrow>
          (case u_status p of None \<Rightarrow> True | Some s \<Rightarrow> is_done s))"






section \<open>Auxiliary facts\<close>


subsection \<open>The field writers\<close>

lemma update_fields_simps:
  "task_id (update_fields p c r) = task_id r"
  "status (update_fields p c r) = (case u_status p of Some s \<Rightarrow> s | None \<Rightarrow> status c)"
  "title (update_fields p c r) = (case u_title p of Some s \<Rightarrow> trim s | None \<Rightarrow> title c)"
  "deadline (update_fields p c r) = (case u_deadline p of Some v \<Rightarrow> v | None \<Rightarrow> deadline c)"
  "points_base (update_fields p c r) = points_base r"
  "points_bonus (update_fields p c r) = points_bonus r"
  "points_penalty (update_fields p c r) = points_penalty r"
  "points_total (update_fields p c r) = points_total r"
  "finished_at (update_fields p c r) = finished_at r"
  by (simp_all add: update_fields_def Let_def)

lemma finish_fields_simps:
  "task_id (finish_fields e now t r) = task_id r"
  "status (finish_fields e now t r) = ''finish''"
  "session_type (finish_fields e now t r) = ''parc''"
  "finished_at (finish_fields e now t r) = Some now"
  "points_bonus (finish_fields e now t r) = 0"
  "points_base (finish_fields e now t r) =
     basePoints (if truthy (points_session_type t) then the (points_session_type t) else session_type t)"
  "points_total (finish_fields e now t r) =
     points_base (finish_fields e now t r) + points_penalty (finish_fields e now t r)"
  "points_session_type (finish_fields e now t r) = points_session_type r"
  "title (finish_fields e now t r) = title r"
  "deadline (finish_fields e now t r) = deadline r"
  by (simp_all add: finish_fields_def Let_def)

lemma dnf_fields_simps:
  "task_id (dnf_fields now r) = task_id r"
  "status (dnf_fields now r) = ''dnf''"
  "session_type (dnf_fields now r) = ''parc''"
  "finished_at (dnf_fields now r) = Some now"
  "points_base (dnf_fields now r) = 0"
  "points_bonus (dnf_fields now r) = 0"
  "points_penalty (dnf_fields now r) = - 5"
  "points_total (dnf_fields now r) = - 5"
  "points_session_type (dnf_fields now r) = points_session_type r"
  "title (dnf_fields now r) = title r"
  "deadline (dnf_fields now r) = deadline r"
  by (simp_all add: dnf_fields_def Let_def)

subsection \<open>The timers leave the table alone\<close>

lemma task_rows_clearNotif: "task_rows (clearNotif i w) = task_rows w"
  by (simp add: clearNotif_def clearTimeout_def Let_def split: option.splits)

lemma seq_clearNotif: "seq (clearNotif i w) = seq w"
  by (simp add: clearNotif_def clearTimeout_def Let_def split: option.splits)

lemma task_rows_scheduleDeadlineNotif:
  "task_rows (scheduleDeadlineNotif e now t w) = task_rows w"
  by (simp add: scheduleDeadlineNotif_def setTimeout_def task_rows_clearNotif Let_def
      split: option.splits prod.splits)

lemma seq_scheduleDeadlineNotif: "seq (scheduleDeadlineNotif e now t w) = seq w"
  by (simp add: scheduleDeadlineNotif_def setTimeout_def seq_clearNotif Let_def
      split: option.splits prod.splits)

lemma fold_schedule_rows:
  "task_rows (fold (scheduleDeadlineNotif e now) ts w) = task_rows w \<and>
   seq (fold (scheduleDeadlineNotif e now) ts w) = seq w"
  by (induction ts arbitrary: w)
     (simp_all add: task_rows_scheduleDeadlineNotif seq_scheduleDeadlineNotif)

lemma task_rows_timer_fire: "task_rows (timer_fire e now h w) = task_rows w"
  by (simp add: timer_fire_def task_rows_clearNotif clearTimeout_def Let_def
      split: option.splits)

lemma seq_timer_fire: "seq (timer_fire e now h w) = seq w"
  by (simp add: timer_fire_def seq_clearNotif clearTimeout_def Let_def split: option.splits)

subsection \<open>What each request does to the table\<close>

lemma rows_create:
  "task_rows (step e now (Create p) w) = task_rows w \<and> seq (step e now (Create p) w) = seq w \<or>
   (\<exists>t. task_rows (step e now (Create p) w) = task_rows w @ [t] \<and>
        seq (step e now (Create p) w) = lastInsertRowid w \<and>
        task_id t = lastInsertRowid w \<and> title t \<noteq> [] \<and>
        points_base t = 0 \<and> points_bonus t = 0 \<and> points_penalty t = 0 \<and> points_total t = 0)"
  by (simp add: step_def tasks_create_def Let_def task_rows_scheduleDeadlineNotif
      seq_scheduleDeadlineNotif)

lemma rows_update:
  "task_rows (step e now (Update p) w) = task_rows w \<or>
   (\<exists>cur. select_task w (u_id p) = Some cur \<and>
      task_rows (step e now (Update p) w) = set_row (u_id p) (update_fields p cur) (task_rows w))"
  by (simp add: step_def tasks_update_def Let_def task_rows_scheduleDeadlineNotif
      update_row_def set_row_def split: option.splits)

lemma rows_finish:
  "task_rows (step e now (Finish i) w) = task_rows w \<or>
   (\<exists>cur. select_task w i = Some cur \<and>
      task_rows (step e now (Finish i) w) = set_row i (finish_fields e now cur) (task_rows w))"
  by (simp add: step_def tasks_finish_def task_rows_clearNotif update_row_def set_row_def
      split: option.splits)

lemma rows_dnf:
  "task_rows (step e now (Dnf i) w) = task_rows w \<or>
   (\<exists>cur. select_task w i = Some cur \<and>
      task_rows (step e now (Dnf i) w) = set_row i (dnf_fields now) (task_rows w))"
  by (simp add: step_def tasks_dnf_def task_rows_clearNotif update_row_def set_row_def
      split: option.splits)

lemma rows_delete:
  "task_rows (step e now (Delete i) w) = filter (\<lambda>t. task_id t \<noteq> i) (task_rows w)"
  by (simp add: step_def tasks_delete_def task_rows_clearNotif)

lemma rows_reschedule: "task_rows (step e now Reschedule w) = task_rows w"
  by (simp add: step_def tasks_rescheduleNotifications_def fold_schedule_rows)

lemma rows_fire: "task_rows (step e now (Fire h) w) = task_rows w"
  by (simp add: step_def task_rows_timer_fire)

lemma seq_step_other:
  "\<forall>p. c \<noteq> Create p \<Longrightarrow> seq (step e now c w) = seq w"
  by (cases c)
     (simp_all add: step_def tasks_update_def tasks_finish_def tasks_dnf_def tasks_delete_def
        tasks_rescheduleNotifications_def fold_schedule_rows seq_timer_fire seq_clearNotif
        seq_scheduleDeadlineNotif update_row_def Let_def split: option.splits)

subsection \<open>Reading a row back\<close>

lemma select_task_row_of: "select_task w i = row_of (task_rows w) i"
  by (simp add: select_task_def row_of_def)

lemma row_of_Some: "row_of rows i = Some t \<Longrightarrow> task_id t = i \<and> t \<in> set rows"
  unfolding row_of_def by (induction rows) (auto split: if_splits)

lemma row_of_None: "row_of rows i = None \<longleftrightarrow> (\<forall>t \<in> set rows. task_id t \<noteq> i)"
  unfolding row_of_def by (induction rows) auto

lemma row_of_set_row:
  "(\<And>t. task_id (f t) = task_id t) \<Longrightarrow>
   row_of (set_row j f rows) i =
   map_option (\<lambda>t. if task_id t = j then f t else t) (row_of rows i)"
  unfolding row_of_def set_row_def by (induction rows) auto

lemma row_of_append: "row_of rows i = Some t \<Longrightarrow> row_of (rows @ ys) i = Some t"
  unfolding row_of_def by (induction rows) auto

lemma row_of_append_None:
  "row_of rows i = None \<Longrightarrow> row_of (rows @ [t]) i = (if task_id t = i then Some t else None)"
  unfolding row_of_def by (induction rows) auto

lemma row_of_filter:
  "row_of (filter (\<lambda>t. task_id t \<noteq> j) rows) i = (if i = j then None else row_of rows i)"
  unfolding row_of_def by (induction rows) auto

lemma fold_max_ge: "(a::int) \<le> fold max xs a"
  by (induction xs arbitrary: a) (auto intro: order_trans [OF max.cobounded2])

lemma fold_max_mem: "x \<in> set xs \<Longrightarrow> (x::int) \<le> fold max xs a"
proof (induction xs arbitrary: a)
  case Nil
  then show ?case by simp
next
  case (Cons y ys)
  show ?case
  proof (cases "x = y")
    case True
    have "y \<le> max y a" by simp
    also have "\<dots> \<le> fold max ys (max y a)" by (rule fold_max_ge)
    finally show ?thesis using True by simp
  next
    case False
    with Cons show ?thesis by simp
  qed
qed

lemma lastInsertRowid_fresh: "seq w < lastInsertRowid w"
  using fold_max_ge [of "seq w" "map task_id (task_rows w)"]
  by (simp add: lastInsertRowid_def)

subsection \<open>Histories\<close>

lemma run_Nil: "run e [] w = w"
  by (simp add: run_def)

lemma run_Cons: "run e ((now, c) # evs) w = run e evs (step e now c w)"
  by (simp add: run_def)

lemma run_append: "run e (xs @ ys) w = run e ys (run e xs w)"
  by (simp add: run_def)

lemma run_snoc: "run e (xs @ [(now, c)]) w = step e now c (run e xs w)"
  by (simp add: run_def)


subsection \<open>ids\<close>

lemma step_ids_le_seq:
  assumes "\<forall>t \<in> set (task_rows w). task_id t \<le> seq w"
  shows "\<forall>t \<in> set (task_rows (step e now c w)). task_id t \<le> seq (step e now c w)"
proof (cases c)
  case (Create p)
  from rows_create [of e now p w] show ?thesis
  proof
    assume "task_rows (step e now (Create p) w) = task_rows w \<and>
            seq (step e now (Create p) w) = seq w"
    with assms Create show ?thesis by simp
  next
    assume "\<exists>t. task_rows (step e now (Create p) w) = task_rows w @ [t] \<and>
        seq (step e now (Create p) w) = lastInsertRowid w \<and>
        task_id t = lastInsertRowid w \<and> title t \<noteq> [] \<and>
        points_base t = 0 \<and> points_bonus t = 0 \<and> points_penalty t = 0 \<and> points_total t = 0"
    then obtain t where t: "task_rows (step e now (Create p) w) = task_rows w @ [t]"
      "seq (step e now (Create p) w) = lastInsertRowid w" "task_id t = lastInsertRowid w"
      by blast
    have "seq w < lastInsertRowid w" by (rule lastInsertRowid_fresh)
    with assms t Create show ?thesis by fastforce
  qed
next
  case (Update p)
  have s: "seq (step e now c w) = seq w" using Update by (simp add: seq_step_other)
  from rows_update [of e now p w] assms Update s show ?thesis
    by (fastforce simp: set_row_def update_fields_simps)
next
  case (Finish i)
  have s: "seq (step e now c w) = seq w" using Finish by (simp add: seq_step_other)
  from rows_finish [of e now i w] assms Finish s show ?thesis
    by (fastforce simp: set_row_def finish_fields_simps)
next
  case (Dnf i)
  have s: "seq (step e now c w) = seq w" using Dnf by (simp add: seq_step_other)
  from rows_dnf [of e now i w] assms Dnf s show ?thesis
    by (fastforce simp: set_row_def dnf_fields_simps)
next
  case (Delete i)
  have s: "seq (step e now c w) = seq w" using Delete by (simp add: seq_step_other)
  from assms Delete s show ?thesis by (simp add: rows_delete)
next
  case Reschedule
  have s: "seq (step e now c w) = seq w" using Reschedule by (simp add: seq_step_other)
  from assms Reschedule s show ?thesis by (simp add: rows_reschedule)
next
  case (Fire h)
  have s: "seq (step e now c w) = seq w" using Fire by (simp add: seq_step_other)
  from assms Fire s show ?thesis by (simp add: rows_fire)
qed

lemma run_ids_le_seq:
  "\<forall>t \<in> set (task_rows w). task_id t \<le> seq w \<Longrightarrow>
   \<forall>t \<in> set (task_rows (run e evs w)). task_id t \<le> seq (run e evs w)"
proof (induction evs arbitrary: w)
  case Nil
  then show ?case by (simp add: run_Nil)
next
  case (Cons ev evs)
  obtain now c where ev: "ev = (now, c)" by (cases ev)
  show ?case unfolding ev run_Cons
    by (rule Cons.IH) (rule step_ids_le_seq [OF Cons.prems])
qed

lemma reachable_ids_le_seq:
  "\<forall>t \<in> set (task_rows (run e evs empty_world)). task_id t \<le> seq (run e evs empty_world)"
  by (rule run_ids_le_seq) (simp add: empty_world_def)

subsection \<open>status of one row\<close>

lemma seq_step_mono: "seq w \<le> seq (step e now c w)"
proof (cases c)
  case (Create p)
  from rows_create [of e now p w] lastInsertRowid_fresh [of w] Create show ?thesis by auto
qed (simp_all add: seq_step_other)

lemma step_keeps_status:
  assumes le: "i \<le> seq w"
    and Q: "\<forall>t. row_of (task_rows w) i = Some t \<longrightarrow> Q (status t)"
    and upd: "\<forall>p. c = Update p \<longrightarrow> u_id p = i \<longrightarrow> u_status p = None"
    and fin: "(Q ''finish'' \<and> Q ''dnf'') \<or> (c \<noteq> Finish i \<and> c \<noteq> Dnf i)"
  shows "\<forall>t. row_of (task_rows (step e now c w)) i = Some t \<longrightarrow> Q (status t)"
proof (cases c)
  case (Create p)
  from rows_create [of e now p w] show ?thesis
  proof
    assume "task_rows (step e now (Create p) w) = task_rows w \<and>
            seq (step e now (Create p) w) = seq w"
    with Q Create show ?thesis by simp
  next
    assume "\<exists>t. task_rows (step e now (Create p) w) = task_rows w @ [t] \<and>
        seq (step e now (Create p) w) = lastInsertRowid w \<and>
        task_id t = lastInsertRowid w \<and> title t \<noteq> [] \<and>
        points_base t = 0 \<and> points_bonus t = 0 \<and> points_penalty t = 0 \<and> points_total t = 0"
    then obtain t0 where t0: "task_rows (step e now (Create p) w) = task_rows w @ [t0]"
      "task_id t0 = lastInsertRowid w"
      by blast
    have ne: "task_id t0 \<noteq> i" using lastInsertRowid_fresh [of w] le t0 by simp
    show ?thesis
    proof (cases "row_of (task_rows w) i")
      case None
      with ne t0 Create show ?thesis by (simp add: row_of_append_None)
    next
      case (Some t)
      with Q t0 Create show ?thesis by (simp add: row_of_append)
    qed
  qed
next
  case (Update p)
  from rows_update [of e now p w] show ?thesis
  proof
    assume "task_rows (step e now (Update p) w) = task_rows w"
    with Q Update show ?thesis by simp
  next
    assume "\<exists>cur. select_task w (u_id p) = Some cur \<and>
      task_rows (step e now (Update p) w) = set_row (u_id p) (update_fields p cur) (task_rows w)"
    then obtain cur where cur: "row_of (task_rows w) (u_id p) = Some cur"
      "task_rows (step e now (Update p) w) = set_row (u_id p) (update_fields p cur) (task_rows w)"
      by (auto simp: select_task_row_of)
    show ?thesis
    proof (intro allI impI)
      fix t assume "row_of (task_rows (step e now c w)) i = Some t"
      then obtain t1 where t1: "row_of (task_rows w) i = Some t1"
        "t = (if task_id t1 = u_id p then update_fields p cur t1 else t1)"
        using Update cur(2) by (auto simp: row_of_set_row update_fields_simps)
      have id1: "task_id t1 = i" using t1(1) by (simp add: row_of_Some)
      show "Q (status t)"
      proof (cases "u_id p = i")
        case True
        then have "cur = t1" using cur(1) t1(1) by simp
        moreover have "u_status p = None" using upd Update True by simp
        ultimately show ?thesis using t1 id1 True Q by (simp add: update_fields_simps)
      next
        case False
        then show ?thesis using t1 id1 Q by simp
      qed
    qed
  qed
next
  case (Finish j)
  from rows_finish [of e now j w] show ?thesis
  proof
    assume "task_rows (step e now (Finish j) w) = task_rows w"
    with Q Finish show ?thesis by simp
  next
    assume "\<exists>cur. select_task w j = Some cur \<and>
      task_rows (step e now (Finish j) w) = set_row j (finish_fields e now cur) (task_rows w)"
    then obtain cur where
      cur: "task_rows (step e now (Finish j) w) = set_row j (finish_fields e now cur) (task_rows w)"
      by blast
    show ?thesis
    proof (intro allI impI)
      fix t assume "row_of (task_rows (step e now c w)) i = Some t"
      then obtain t1 where t1: "row_of (task_rows w) i = Some t1"
        "t = (if task_id t1 = j then finish_fields e now cur t1 else t1)"
        using Finish cur by (auto simp: row_of_set_row finish_fields_simps)
      have id1: "task_id t1 = i" using t1(1) by (simp add: row_of_Some)
      show "Q (status t)"
        using t1 id1 Q fin Finish by (auto simp: finish_fields_simps)
    qed
  qed
next
  case (Dnf j)
  from rows_dnf [of e now j w] show ?thesis
  proof
    assume "task_rows (step e now (Dnf j) w) = task_rows w"
    with Q Dnf show ?thesis by simp
  next
    assume "\<exists>cur. select_task w j = Some cur \<and>
      task_rows (step e now (Dnf j) w) = set_row j (dnf_fields now) (task_rows w)"
    then have
      cur: "task_rows (step e now (Dnf j) w) = set_row j (dnf_fields now) (task_rows w)"
      by blast
    show ?thesis
    proof (intro allI impI)
      fix t assume "row_of (task_rows (step e now c w)) i = Some t"
      then obtain t1 where t1: "row_of (task_rows w) i = Some t1"
        "t = (if task_id t1 = j then dnf_fields now t1 else t1)"
        using Dnf cur by (auto simp: row_of_set_row dnf_fields_simps)
      have id1: "task_id t1 = i" using t1(1) by (simp add: row_of_Some)
      show "Q (status t)"
        using t1 id1 Q fin Dnf by (auto simp: dnf_fields_simps)
    qed
  qed
next
  case (Delete j)
  with Q show ?thesis by (simp add: rows_delete row_of_filter)
next
  case Reschedule
  with Q show ?thesis by (simp add: rows_reschedule)
next
  case (Fire h)
  with Q show ?thesis by (simp add: rows_fire)
qed

lemma run_keeps_status:
  assumes "i \<le> seq w"
    and "\<forall>t. row_of (task_rows w) i = Some t \<longrightarrow> Q (status t)"
    and "\<forall>(now, c) \<in> set evs. \<forall>p. c = Update p \<longrightarrow> u_id p = i \<longrightarrow> u_status p = None"
    and "(Q ''finish'' \<and> Q ''dnf'') \<or> (\<forall>now. (now, Finish i) \<notin> set evs \<and> (now, Dnf i) \<notin> set evs)"
  shows "\<forall>t. row_of (task_rows (run e evs w)) i = Some t \<longrightarrow> Q (status t)"
  using assms
proof (induction evs arbitrary: w)
  case Nil
  then show ?case by (simp add: run_Nil)
next
  case (Cons ev evs)
  obtain now c where ev: "ev = (now, c)" by (cases ev)
  have a: "i \<le> seq (step e now c w)"
    using Cons.prems(1) seq_step_mono [of w e now c] by simp
  have b: "\<forall>t. row_of (task_rows (step e now c w)) i = Some t \<longrightarrow> Q (status t)"
  proof (rule step_keeps_status [OF Cons.prems(1) Cons.prems(2)])
    show "\<forall>p. c = Update p \<longrightarrow> u_id p = i \<longrightarrow> u_status p = None"
      using Cons.prems(3) ev by auto
    show "(Q ''finish'' \<and> Q ''dnf'') \<or> (c \<noteq> Finish i \<and> c \<noteq> Dnf i)"
      using Cons.prems(4) ev by auto
  qed
  have c': "\<forall>(now, c) \<in> set evs. \<forall>p. c = Update p \<longrightarrow> u_id p = i \<longrightarrow> u_status p = None"
    using Cons.prems(3) by auto
  have d: "(Q ''finish'' \<and> Q ''dnf'') \<or>
           (\<forall>now. (now, Finish i) \<notin> set evs \<and> (now, Dnf i) \<notin> set evs)"
    using Cons.prems(4) by auto
  show ?case unfolding ev run_Cons by (rule Cons.IH [OF a b c' d])
qed

subsection \<open>Points of the rows\<close>

lemma step_points:
  assumes IH: "\<forall>t \<in> set (task_rows w). G t"
    and zero: "\<And>t::task. points_base t = 0 \<Longrightarrow> points_bonus t = 0 \<Longrightarrow> points_penalty t = 0 \<Longrightarrow>
                 points_total t = 0 \<Longrightarrow> G t"
    and upd: "\<And>(t::task) p cur. G t \<Longrightarrow> G (update_fields p cur t)"
    and fin: "\<And>(t::task) cur i. c = Finish i \<Longrightarrow> task_id t = i \<Longrightarrow> G (finish_fields e now cur t)"
    and dnf: "\<And>(t::task) i. c = Dnf i \<Longrightarrow> task_id t = i \<Longrightarrow> G (dnf_fields now t)"
  shows "\<forall>t \<in> set (task_rows (step e now c w)). G t"
proof (cases c)
  case (Create p)
  from rows_create [of e now p w] IH zero Create show ?thesis by auto
next
  case (Update p)
  from rows_update [of e now p w] IH upd Update show ?thesis
    by (auto simp: set_row_def)
next
  case (Finish i)
  from rows_finish [of e now i w] IH fin Finish show ?thesis
    by (auto simp: set_row_def)
next
  case (Dnf i)
  from rows_dnf [of e now i w] IH dnf Dnf show ?thesis
    by (auto simp: set_row_def)
next
  case (Delete i)
  with IH show ?thesis by (simp add: rows_delete)
next
  case Reschedule
  with IH show ?thesis by (simp add: rows_reschedule)
next
  case (Fire h)
  with IH show ?thesis by (simp add: rows_fire)
qed

subsection \<open>The row a handler leaves behind\<close>

lemma select_update_row:
  assumes "select_task w i = Some t" and "\<And>r. task_id (f r) = task_id r"
  shows "select_task (update_row i f w) i = Some (f t)"
  using assms
  by (simp add: select_task_row_of update_row_def row_of_set_row [unfolded set_row_def] row_of_Some)

lemma select_task_clearNotif: "select_task (clearNotif i w) j = select_task w j"
  by (simp add: select_task_def task_rows_clearNotif)


lemma finish_row:
  "select_task w i = Some t \<Longrightarrow>
   \<exists>w'. tasks_finish e now i w = Inr w' \<and> select_task w' i = Some (finish_fields e now t t)"
  by (simp add: tasks_finish_def select_task_clearNotif select_update_row finish_fields_simps)

lemma dnf_row:
  "select_task w i = Some t \<Longrightarrow>
   \<exists>w'. tasks_dnf e now i w = Inr w' \<and> select_task w' i = Some (dnf_fields now t)"
  by (simp add: tasks_dnf_def select_task_clearNotif select_update_row dnf_fields_simps)


lemma penalty_finish_fields:
  "points_penalty (finish_fields e now t r) =
     (if truthy (deadline t) \<and>
         (\<exists>dl. ymdToDate e (the (deadline t)) = Some dl \<and> 3 \<le> (now - dl) div 86400000)
      then - 5 else 0)"
  by (auto simp: finish_fields_def isLateByDays_def Let_def split: option.splits)


subsection \<open>Titles and laps\<close>

lemma create_rejects_empty_title:
  "trim (case c_title p of None \<Rightarrow> [] | Some s \<Rightarrow> s) = [] \<Longrightarrow>
   tasks_create e now p w = Inl TitleRequired"
  by (simp add: tasks_create_def)

lemma trunc_of_int: "trunc (of_int n) = n"
  by (simp add: trunc_def)

lemma clampInt_bounds: "mn \<le> mx \<Longrightarrow> mn \<le> clampInt v mn mx \<and> clampInt v mn mx \<le> mx"
  by (cases v) (auto simp: clampInt_def)

subsection \<open>The timer map and the pending timers\<close>

lemma timers_ok_one_per_task:
  assumes "timers_ok w"
  shows "distinct (map for_task (pending w))"
proof -
  have "map handle (pending w) = map (\<lambda>i. the (notifTimers w i)) (map for_task (pending w))"
    using assms by (simp add: timers_ok_def)
  moreover have "distinct (map handle (pending w))" using assms by (simp add: timers_ok_def)
  ultimately show ?thesis by (metis distinct_map)
qed

lemma pending_clearNotif:
  "pending (clearNotif i w) =
     (case notifTimers w i of None \<Rightarrow> pending w
      | Some h \<Rightarrow> filter (\<lambda>t. handle t \<noteq> h) (pending w))"
  by (simp add: clearNotif_def clearTimeout_def Let_def split: option.splits)

lemma notifTimers_clearNotif: "notifTimers (clearNotif i w) = (notifTimers w)(i := None)"
  by (simp add: clearNotif_def clearTimeout_def Let_def split: option.splits)

lemma next_handle_clearNotif: "next_handle (clearNotif i w) = next_handle w"
  by (simp add: clearNotif_def clearTimeout_def Let_def split: option.splits)

lemma shown_clearNotif: "shown (clearNotif i w) = shown w"
  by (simp add: clearNotif_def clearTimeout_def Let_def split: option.splits)

lemma set_pending_clearNotif: "set (pending (clearNotif i w)) \<subseteq> set (pending w)"
  by (auto simp: pending_clearNotif split: option.splits)

lemma clearNotif_quiet:
  assumes "timers_ok w"
  shows "\<forall>t \<in> set (pending (clearNotif i w)). for_task t \<noteq> i"
  using assms by (auto simp: timers_ok_def pending_clearNotif split: option.splits)

lemma clearNotif_ok:
  assumes "timers_ok w"
  shows "timers_ok (clearNotif i w)"
proof -
  have q: "\<forall>t \<in> set (pending (clearNotif i w)). for_task t \<noteq> i"
    by (rule clearNotif_quiet [OF assms])
  have sub: "set (pending (clearNotif i w)) \<subseteq> set (pending w)"
    by (rule set_pending_clearNotif)
  have d: "distinct (map handle (pending (clearNotif i w)))"
    using assms by (simp add: timers_ok_def pending_clearNotif distinct_map_filter split: option.splits)
  show ?thesis
    unfolding timers_ok_def
    using q sub d assms
    by (auto simp: timers_ok_def notifTimers_clearNotif next_handle_clearNotif)
qed

lemma schedule_cases:
  "scheduleDeadlineNotif e now t w = clearNotif (task_id t) w \<or>
   (truthy (deadline t) \<and> \<not> is_done (status t) \<and>
    (\<exists>tm. scheduleDeadlineNotif e now t w =
       (clearNotif (task_id t) w)
         \<lparr>pending := pending (clearNotif (task_id t) w) @
            [\<lparr>handle = next_handle w, for_task = task_id t, body = title t, fire_at = tm\<rparr>],
          next_handle := Suc (next_handle w),
          notifTimers := (notifTimers (clearNotif (task_id t) w))(task_id t \<mapsto> next_handle w)\<rparr>))"
  by (auto simp: scheduleDeadlineNotif_def setTimeout_def Let_def is_done_def
      next_handle_clearNotif split: option.splits)

lemma schedule_ok:
  assumes "timers_ok w"
  shows "timers_ok (scheduleDeadlineNotif e now t w)"
proof -
  let ?c = "clearNotif (task_id t) w"
  have c: "timers_ok ?c" by (rule clearNotif_ok [OF assms])
  have q: "\<forall>u \<in> set (pending ?c). for_task u \<noteq> task_id t"
    by (rule clearNotif_quiet [OF assms])
  from schedule_cases [of e now t w] show ?thesis
  proof
    assume "scheduleDeadlineNotif e now t w = ?c"
    with c show ?thesis by simp
  next
    assume "truthy (deadline t) \<and> \<not> is_done (status t) \<and>
    (\<exists>tm. scheduleDeadlineNotif e now t w =
       ?c\<lparr>pending := pending ?c @
            [\<lparr>handle = next_handle w, for_task = task_id t, body = title t, fire_at = tm\<rparr>],
          next_handle := Suc (next_handle w),
          notifTimers := (notifTimers ?c)(task_id t \<mapsto> next_handle w)\<rparr>)"
    then obtain tm where eq: "scheduleDeadlineNotif e now t w =
       ?c\<lparr>pending := pending ?c @
            [\<lparr>handle = next_handle w, for_task = task_id t, body = title t, fire_at = tm\<rparr>],
          next_handle := Suc (next_handle w),
          notifTimers := (notifTimers ?c)(task_id t \<mapsto> next_handle w)\<rparr>"
      by blast
    show ?thesis
      unfolding eq using c q
      by (auto simp: timers_ok_def next_handle_clearNotif)
  qed
qed

lemma fold_schedule_ok:
  "timers_ok w \<Longrightarrow> timers_ok (fold (scheduleDeadlineNotif e now) ts w)"
  by (induction ts arbitrary: w) (simp_all add: schedule_ok)

lemma find_handle: "find (\<lambda>t. handle t = h) xs = Some t \<Longrightarrow> t \<in> set xs \<and> handle t = h"
  by (induction xs) (auto split: if_splits)

lemma timers_ok_rows [simp]: "timers_ok (w\<lparr>task_rows := rs\<rparr>) = timers_ok w"
  by (simp add: timers_ok_def)

lemma timers_ok_seq [simp]: "timers_ok (w\<lparr>seq := s\<rparr>) = timers_ok w"
  by (simp add: timers_ok_def)

lemma timers_ok_shown [simp]: "timers_ok (w\<lparr>shown := s\<rparr>) = timers_ok w"
  by (simp add: timers_ok_def)

lemma clearTimeout_ok:
  assumes "timers_ok w"
  shows "timers_ok (clearTimeout h w)"
  using assms by (auto simp: timers_ok_def clearTimeout_def distinct_map_filter)

lemma fire_ok:
  assumes "timers_ok w"
  shows "timers_ok (timer_fire e now h w)"
  using assms
  by (auto simp: timer_fire_def Let_def clearNotif_ok clearTimeout_ok split: option.splits)

lemma step_ok:
  assumes "timers_ok w"
  shows "timers_ok (step e now c w)"
  using assms
  by (cases c)
     (auto simp: step_def tasks_create_def tasks_update_def tasks_finish_def tasks_dnf_def
        tasks_delete_def tasks_rescheduleNotifications_def update_row_def Let_def
        schedule_ok clearNotif_ok fold_schedule_ok fire_ok split: option.splits)

lemma run_ok: "timers_ok w \<Longrightarrow> timers_ok (run e evs w)"
proof (induction evs arbitrary: w)
  case Nil
  then show ?case by (simp add: run_Nil)
next
  case (Cons ev evs)
  obtain now c where ev: "ev = (now, c)" by (cases ev)
  show ?case unfolding ev run_Cons by (rule Cons.IH) (rule step_ok [OF Cons.prems])
qed

lemma reachable_ok: "timers_ok (run e evs empty_world)"
  by (rule run_ok) (simp add: timers_ok_def empty_world_def)

lemma shown_schedule: "shown (scheduleDeadlineNotif e now t w) = shown w"
  using schedule_cases [of e now t w] by (auto simp: shown_clearNotif)

lemma shown_fold_schedule: "shown (fold (scheduleDeadlineNotif e now) ts w) = shown w"
  by (induction ts arbitrary: w) (simp_all add: shown_schedule)

lemma update_row_simps:
  "pending (update_row j f w) = pending w"
  "shown (update_row j f w) = shown w"
  "seq (update_row j f w) = seq w"
  "notifTimers (update_row j f w) = notifTimers w"
  by (simp_all add: update_row_def)

lemma schedule_quiet:
  assumes q: "\<forall>u \<in> set (pending w). for_task u \<noteq> i"
    and d: "task_id t = i \<longrightarrow> is_done (status t)"
  shows "\<forall>u \<in> set (pending (scheduleDeadlineNotif e now t w)). for_task u \<noteq> i"
proof -
  let ?c = "clearNotif (task_id t) w"
  have sub: "set (pending ?c) \<subseteq> set (pending w)"
    by (rule set_pending_clearNotif)
  then have qc: "\<forall>u \<in> set (pending ?c). for_task u \<noteq> i" using q by blast
  from schedule_cases [of e now t w] show ?thesis
  proof
    assume "scheduleDeadlineNotif e now t w = ?c"
    with qc show ?thesis by simp
  next
    assume a: "truthy (deadline t) \<and> \<not> is_done (status t) \<and>
    (\<exists>tm. scheduleDeadlineNotif e now t w =
       ?c\<lparr>pending := pending ?c @
            [\<lparr>handle = next_handle w, for_task = task_id t, body = title t, fire_at = tm\<rparr>],
          next_handle := Suc (next_handle w),
          notifTimers := (notifTimers ?c)(task_id t \<mapsto> next_handle w)\<rparr>)"
    then have ne: "task_id t \<noteq> i" using d by blast
    from a obtain tm where eq: "pending (scheduleDeadlineNotif e now t w) = pending ?c @
            [\<lparr>handle = next_handle w, for_task = task_id t, body = title t, fire_at = tm\<rparr>]"
      by auto
    show ?thesis unfolding eq using qc ne by simp
  qed
qed

lemma set_pending_fire: "set (pending (timer_fire e now h w)) \<subseteq> set (pending w)"
proof (cases "find (\<lambda>t. handle t = h) (pending w)")
  case None
  then show ?thesis by (simp add: timer_fire_def)
next
  case (Some t)
  let ?w1 = "clearTimeout h w"
  let ?w2 = "if notif_supported e then ?w1\<lparr>shown := shown ?w1 @ [(for_task t, body t)]\<rparr> else ?w1"
  have "set (pending ?w2) \<subseteq> set (pending w)" by (auto simp: clearTimeout_def)
  moreover have "set (pending (clearNotif (for_task t) ?w2)) \<subseteq> set (pending ?w2)"
    by (rule set_pending_clearNotif)
  ultimately have "set (pending (clearNotif (for_task t) ?w2)) \<subseteq> set (pending w)"
    by (rule order_trans [rotated])
  then show ?thesis using Some by (simp add: timer_fire_def Let_def)
qed

lemma fold_schedule_quiet:
  assumes "\<forall>u \<in> set (pending w). for_task u \<noteq> i"
    and "\<forall>t \<in> set ts. task_id t = i \<longrightarrow> is_done (status t)"
  shows "\<forall>u \<in> set (pending (fold (scheduleDeadlineNotif e now) ts w)). for_task u \<noteq> i"
  using assms
proof (induction ts arbitrary: w)
  case Nil
  then show ?case by simp
next
  case (Cons t ts)
  have "\<forall>u \<in> set (pending (scheduleDeadlineNotif e now t w)). for_task u \<noteq> i"
    by (rule schedule_quiet) (use Cons.prems in simp_all)
  then show ?case using Cons.IH Cons.prems(2) by simp
qed

lemma disarmedI:
  assumes "i \<le> seq w'"
    and "\<forall>t \<in> set (task_rows w'). task_id t = i \<longrightarrow> is_done (status t)"
    and "\<forall>t \<in> set (pending w'). for_task t \<noteq> i"
    and "\<exists>new. shown w' = base @ new \<and> (\<forall>x \<in> set new. fst x \<noteq> i)"
  shows "disarmed i base w'"
  using assms by (simp add: disarmed_def)

lemma step_rows_done:
  assumes rows: "\<forall>t \<in> set (task_rows w). task_id t = i \<longrightarrow> is_done (status t)"
    and le: "i \<le> seq w"
    and h: "harmless i c"
  shows "\<forall>t \<in> set (task_rows (step e now c w)). task_id t = i \<longrightarrow> is_done (status t)"
proof (cases c)
  case (Create p)
  from rows_create [of e now p w] lastInsertRowid_fresh [of w] rows le Create
  show ?thesis by auto
next
  case (Update p)
  from rows_update [of e now p w] show ?thesis
  proof
    assume "task_rows (step e now (Update p) w) = task_rows w"
    with rows Update show ?thesis by simp
  next
    assume "\<exists>cur. select_task w (u_id p) = Some cur \<and>
      task_rows (step e now (Update p) w) = set_row (u_id p) (update_fields p cur) (task_rows w)"
    then obtain cur where cur: "select_task w (u_id p) = Some cur"
      "task_rows (step e now (Update p) w) = set_row (u_id p) (update_fields p cur) (task_rows w)"
      by blast
    have cur_in: "cur \<in> set (task_rows w)" "task_id cur = u_id p"
      using cur(1) by (simp_all add: select_task_row_of row_of_Some)
    have "is_done (status (update_fields p cur r))" if "u_id p = i" for r
    proof (cases "u_status p")
      case None
      then show ?thesis using cur_in rows that by (simp add: update_fields_simps)
    next
      case (Some s)
      then show ?thesis using h Update that by (simp add: harmless_def update_fields_simps)
    qed
    then show ?thesis using rows Update cur(2)
      by (auto simp: set_row_def update_fields_simps)
  qed
next
  case (Finish j)
  from rows_finish [of e now j w] rows Finish show ?thesis
    by (auto simp: set_row_def finish_fields_simps is_done_def)
next
  case (Dnf j)
  from rows_dnf [of e now j w] rows Dnf show ?thesis
    by (auto simp: set_row_def dnf_fields_simps is_done_def)
next
  case (Delete j)
  with rows show ?thesis by (simp add: rows_delete)
next
  case Reschedule
  with rows show ?thesis by (simp add: rows_reschedule)
next
  case (Fire h)
  with rows show ?thesis by (simp add: rows_fire)
qed

lemma step_quiet:
  assumes rows: "\<forall>t \<in> set (task_rows w). task_id t = i \<longrightarrow> is_done (status t)"
    and le: "i \<le> seq w"
    and q: "\<forall>t \<in> set (pending w). for_task t \<noteq> i"
    and h: "harmless i c"
  shows "\<forall>t \<in> set (pending (step e now c w)). for_task t \<noteq> i"
proof (cases c)
  case (Create p)
  show ?thesis
  proof (cases "tasks_create e now p w")
    case (Inl err)
    with q Create show ?thesis by (simp add: step_def)
  next
    case (Inr r)
    then obtain t w1 where r: "step e now c w = scheduleDeadlineNotif e now t w1"
      "task_id t = lastInsertRowid w" "pending w1 = pending w"
      using Create by (auto simp: step_def tasks_create_def Let_def split: if_splits)
    have "task_id t \<noteq> i" using r(2) le lastInsertRowid_fresh [of w] by simp
    then show ?thesis unfolding r(1) using q r(3) by (intro schedule_quiet) simp_all
  qed
next
  case (Update p)
  show ?thesis
  proof (cases "tasks_update e now p w")
    case (Inl err)
    with q Update show ?thesis by (simp add: step_def)
  next
    case (Inr w')
    then obtain cur where cur: "select_task w (u_id p) = Some cur"
      "w' = scheduleDeadlineNotif e now (update_fields p cur cur)
              (update_row (u_id p) (update_fields p cur) w)"
      by (auto simp: tasks_update_def Let_def split: if_splits option.splits)
    have cur_in: "cur \<in> set (task_rows w)" "task_id cur = u_id p"
      using cur(1) by (simp_all add: select_task_row_of row_of_Some)
    have d: "task_id (update_fields p cur cur) = i \<longrightarrow> is_done (status (update_fields p cur cur))"
    proof (cases "u_status p")
      case None
      then show ?thesis using cur_in rows by (auto simp: update_fields_simps)
    next
      case (Some s)
      then show ?thesis using h Update cur_in
        by (auto simp: harmless_def update_fields_simps)
    qed
    have "\<forall>t \<in> set (pending w'). for_task t \<noteq> i"
      unfolding cur(2) using q d by (intro schedule_quiet) (simp_all add: update_row_def)
    then show ?thesis using Inr Update by (simp add: step_def)
  qed
next
  case (Finish j)
  have "set (pending (step e now c w)) \<subseteq> set (pending w)"
  proof (cases "select_task w j")
    case None
    then show ?thesis using Finish by (simp add: step_def tasks_finish_def)
  next
    case (Some t)
    then show ?thesis using Finish
        set_pending_clearNotif [of j "update_row j (finish_fields e now t) w"]
      by (simp add: step_def tasks_finish_def update_row_simps)
  qed
  with q show ?thesis by blast
next
  case (Dnf j)
  have "set (pending (step e now c w)) \<subseteq> set (pending w)"
  proof (cases "select_task w j")
    case None
    then show ?thesis using Dnf by (simp add: step_def tasks_dnf_def)
  next
    case (Some t)
    then show ?thesis using Dnf
        set_pending_clearNotif [of j "update_row j (dnf_fields now) w"]
      by (simp add: step_def tasks_dnf_def update_row_simps)
  qed
  with q show ?thesis by blast
next
  case (Delete j)
  have "set (pending (step e now c w)) \<subseteq> set (pending w)"
    using Delete
      set_pending_clearNotif [of j "w\<lparr>task_rows := filter (\<lambda>t. task_id t \<noteq> j) (task_rows w)\<rparr>"]
    by (simp add: step_def tasks_delete_def)
  with q show ?thesis by blast
next
  case Reschedule
  then show ?thesis using q rows
    by (simp add: step_def tasks_rescheduleNotifications_def fold_schedule_quiet)
next
  case (Fire h)
  have "set (pending (step e now c w)) \<subseteq> set (pending w)"
    using Fire set_pending_fire [of e now h w] by (simp add: step_def)
  with q show ?thesis by blast
qed

lemma shown_step_other:
  "\<forall>h. c \<noteq> Fire h \<Longrightarrow> shown (step e now c w) = shown w"
proof (cases c)
  case (Create p)
  then show ?thesis
    by (cases "tasks_create e now p w")
       (auto simp: step_def tasks_create_def Let_def shown_schedule split: if_splits)
next
  case (Update p)
  then show ?thesis
    by (cases "tasks_update e now p w")
       (auto simp: step_def tasks_update_def Let_def shown_schedule update_row_simps
          split: if_splits option.splits)
next
  case (Finish j)
  then show ?thesis
    by (cases "select_task w j")
       (simp_all add: step_def tasks_finish_def shown_clearNotif update_row_simps)
next
  case (Dnf j)
  then show ?thesis
    by (cases "select_task w j")
       (simp_all add: step_def tasks_dnf_def shown_clearNotif update_row_simps)
next
  case (Delete j)
  then show ?thesis by (simp add: step_def tasks_delete_def shown_clearNotif)
next
  case Reschedule
  then show ?thesis
    by (simp add: step_def tasks_rescheduleNotifications_def shown_fold_schedule)
next
  case (Fire h)
  assume "\<forall>h. c \<noteq> Fire h"
  with Fire show ?thesis by simp
qed

lemma step_shown:
  assumes q: "\<forall>t \<in> set (pending w). for_task t \<noteq> i"
  shows "\<exists>new. shown (step e now c w) = shown w @ new \<and> (\<forall>x \<in> set new. fst x \<noteq> i)"
proof (cases "\<exists>h. c = Fire h")
  case False
  then have "shown (step e now c w) = shown w" by (simp add: shown_step_other)
  then show ?thesis by simp
next
  case True
  then obtain h where Fire: "c = Fire h" by blast
  show ?thesis
  proof (cases "find (\<lambda>t. handle t = h) (pending w)")
    case None
    with Fire show ?thesis by (simp add: step_def timer_fire_def)
  next
    case (Some t)
    then have "t \<in> set (pending w)" by (rule find_handle [THEN conjunct1])
    then have ne: "for_task t \<noteq> i" using q by simp
    have "shown (timer_fire e now h w) = shown w \<or>
          shown (timer_fire e now h w) = shown w @ [(for_task t, body t)]"
      using Some by (simp add: timer_fire_def Let_def shown_clearNotif clearTimeout_def)
    then show ?thesis
    proof
      assume "shown (timer_fire e now h w) = shown w"
      then show ?thesis using Fire by (simp add: step_def)
    next
      assume "shown (timer_fire e now h w) = shown w @ [(for_task t, body t)]"
      then show ?thesis using Fire ne by (simp add: step_def)
    qed
  qed
qed

lemma step_disarmed:
  assumes "disarmed i base w" and "harmless i c"
  shows "disarmed i base (step e now c w)"
proof (rule disarmedI)
  show "i \<le> seq (step e now c w)"
    using assms(1) seq_step_mono [of w e now c] by (simp add: disarmed_def)
  show "\<forall>t \<in> set (task_rows (step e now c w)). task_id t = i \<longrightarrow> is_done (status t)"
    by (rule step_rows_done) (use assms in \<open>simp_all add: disarmed_def\<close>)
  show "\<forall>t \<in> set (pending (step e now c w)). for_task t \<noteq> i"
    by (rule step_quiet) (use assms in \<open>simp_all add: disarmed_def\<close>)
  from assms(1) obtain new where new: "shown w = base @ new" "\<forall>x \<in> set new. fst x \<noteq> i"
    by (auto simp: disarmed_def)
  from assms(1) have "\<forall>t \<in> set (pending w). for_task t \<noteq> i" by (simp add: disarmed_def)
  from step_shown [OF this, of e now c] obtain more1 where
    "shown (step e now c w) = shown w @ more1" "\<forall>x \<in> set more1. fst x \<noteq> i"
    by blast
  with new have "shown (step e now c w) = base @ (new @ more1) \<and>
                 (\<forall>x \<in> set (new @ more1). fst x \<noteq> i)"
    by auto
  then show "\<exists>new. shown (step e now c w) = base @ new \<and> (\<forall>x \<in> set new. fst x \<noteq> i)"
    by blast
qed

lemma run_disarmed:
  assumes "disarmed i base w" and "\<forall>(now, c) \<in> set evs. harmless i c"
  shows "disarmed i base (run e evs w)"
  using assms
proof (induction evs arbitrary: w)
  case Nil
  then show ?case by (simp add: run_Nil)
next
  case (Cons ev evs)
  obtain now c where ev: "ev = (now, c)" by (cases ev)
  have "disarmed i base (step e now c w)"
    by (rule step_disarmed) (use Cons.prems ev in auto)
  then show ?case unfolding ev run_Cons using Cons.prems(2) by (intro Cons.IH) auto
qed

lemma set_row_done:
  assumes "\<And>r. task_id (f r) = task_id r" and "\<And>r. is_done (status (f r))"
  shows "\<forall>t \<in> set (set_row i f rows). task_id t = i \<longrightarrow> is_done (status t)"
  using assms by (auto simp: set_row_def)

lemma clearNotif_disarmed:
  assumes ok: "timers_ok w"
    and le: "i \<le> seq w"
    and rows: "\<forall>t \<in> set (task_rows w). task_id t = i \<longrightarrow> is_done (status t)"
  shows "disarmed i (shown w) (clearNotif i w)"
proof (rule disarmedI)
  show "i \<le> seq (clearNotif i w)" using le by (simp add: seq_clearNotif)
  show "\<forall>t \<in> set (task_rows (clearNotif i w)). task_id t = i \<longrightarrow> is_done (status t)"
    using rows by (simp add: task_rows_clearNotif)
  show "\<forall>t \<in> set (pending (clearNotif i w)). for_task t \<noteq> i"
    by (rule clearNotif_quiet [OF ok])
  show "\<exists>new. shown (clearNotif i w) = shown w @ new \<and> (\<forall>x \<in> set new. fst x \<noteq> i)"
    by (simp add: shown_clearNotif)
qed

lemma terminal_request_disarms:
  assumes ok: "timers_ok w"
    and ids: "\<forall>t \<in> set (task_rows w). task_id t \<le> seq w"
    and ex: "select_task w i \<noteq> None"
    and c: "c = Finish i \<or> c = Dnf i \<or> c = Delete i"
  shows "disarmed i (shown w) (step e now c w)"
proof -
  from ex obtain t where t: "select_task w i = Some t" by auto
  then have "t \<in> set (task_rows w)" "task_id t = i"
    by (simp_all add: select_task_row_of row_of_Some)
  then have le: "i \<le> seq w" using ids by auto
  from c show ?thesis
  proof (elim disjE)
    assume c: "c = Finish i"
    let ?w1 = "update_row i (finish_fields e now t) w"
    have s: "step e now c w = clearNotif i ?w1"
      using c t by (simp add: step_def tasks_finish_def)
    have r: "\<forall>t \<in> set (task_rows ?w1). task_id t = i \<longrightarrow> is_done (status t)"
      using set_row_done [of "finish_fields e now t" i "task_rows w"]
      by (simp add: update_row_def set_row_def finish_fields_simps is_done_def)
    have "disarmed i (shown ?w1) (clearNotif i ?w1)"
      by (rule clearNotif_disarmed [OF _ _ r])
         (use ok le in \<open>simp_all add: update_row_def\<close>)
    then show ?thesis unfolding s by (simp add: update_row_simps)
  next
    assume c: "c = Dnf i"
    let ?w1 = "update_row i (dnf_fields now) w"
    have s: "step e now c w = clearNotif i ?w1"
      using c t by (simp add: step_def tasks_dnf_def)
    have r: "\<forall>t \<in> set (task_rows ?w1). task_id t = i \<longrightarrow> is_done (status t)"
      using set_row_done [of "dnf_fields now" i "task_rows w"]
      by (simp add: update_row_def set_row_def dnf_fields_simps is_done_def)
    have "disarmed i (shown ?w1) (clearNotif i ?w1)"
      by (rule clearNotif_disarmed [OF _ _ r])
         (use ok le in \<open>simp_all add: update_row_def\<close>)
    then show ?thesis unfolding s by (simp add: update_row_simps)
  next
    assume c: "c = Delete i"
    let ?w1 = "w\<lparr>task_rows := filter (\<lambda>t. task_id t \<noteq> i) (task_rows w)\<rparr>"
    have s: "step e now c w = clearNotif i ?w1"
      using c by (simp add: step_def tasks_delete_def)
    have r: "\<forall>t \<in> set (task_rows ?w1). task_id t = i \<longrightarrow> is_done (status t)"
      by simp
    have "disarmed i (shown ?w1) (clearNotif i ?w1)"
      by (rule clearNotif_disarmed [OF _ _ r]) (use ok le in simp_all)
    then show ?thesis unfolding s by simp
  qed
qed

subsection \<open>The endpoint loop and the calendar page\<close>

lemma loop_all_fail:
  "\<forall>u \<in> set urls. \<not> has_fixture (net u) \<Longrightarrow> isl (f1_next_loop net urls le)"
  by (induction urls arbitrary: le)
     (auto simp: has_fixture_def split: response.splits list.splits)

lemma loop_first_good:
  "\<forall>v \<in> set pre. \<not> has_fixture (net v) \<Longrightarrow> net u = Json (race # rs) \<Longrightarrow>
   f1_next_loop net (pre @ u # post) le = Inr (toNextGp race)"
  by (induction pre arbitrary: le)
     (auto simp: has_fixture_def split: response.splits list.splits)

lemma loop_Inr_split:
  "f1_next_loop net urls le = Inr gp \<Longrightarrow>
   \<exists>pre u post race rs. urls = pre @ u # post \<and> (\<forall>v \<in> set pre. \<not> has_fixture (net v)) \<and>
      net u = Json (race # rs) \<and> gp = toNextGp race"
proof (induction urls arbitrary: le)
  case Nil
  then show ?case by simp
next
  case (Cons url urls)
  show ?case
  proof (cases "has_fixture (net url)")
    case True
    then obtain race rs where r: "net url = Json (race # rs)"
      by (auto simp: has_fixture_def neq_Nil_conv split: response.splits)
    with Cons.prems have "gp = toNextGp race" by simp
    with r have "url # urls = [] @ url # urls \<and> (\<forall>v \<in> set []. \<not> has_fixture (net v)) \<and>
      net url = Json (race # rs) \<and> gp = toNextGp race" by simp
    then show ?thesis by blast
  next
    case False
    then obtain le' where "f1_next_loop net (url # urls) le = f1_next_loop net urls le'"
      by (auto simp: has_fixture_def split: response.splits list.splits)
    with Cons.prems have "f1_next_loop net urls le' = Inr gp" by simp
    from Cons.IH [OF this] obtain pre u post race rs where
      p: "urls = pre @ u # post" "\<forall>v \<in> set pre. \<not> has_fixture (net v)"
         "net u = Json (race # rs)" "gp = toNextGp race"
      by blast
    then have "url # urls = (url # pre) @ u # post \<and>
      (\<forall>v \<in> set (url # pre). \<not> has_fixture (net v)) \<and>
      net u = Json (race # rs) \<and> gp = toNextGp race"
      using False by simp
    then show ?thesis by blast
  qed
qed

lemma loop_Inl_all_fail:
  "isl (f1_next_loop net urls le) \<Longrightarrow> \<forall>u \<in> set urls. \<not> has_fixture (net u)"
proof (induction urls arbitrary: le)
  case Nil
  then show ?case by simp
next
  case (Cons url urls)
  show ?case
  proof (cases "has_fixture (net url)")
    case True
    then obtain race rs where "net url = Json (race # rs)"
      by (auto simp: has_fixture_def neq_Nil_conv split: response.splits)
    with Cons.prems show ?thesis by simp
  next
    case False
    then obtain le' where "f1_next_loop net (url # urls) le = f1_next_loop net urls le'"
      by (auto simp: has_fixture_def split: response.splits list.splits)
    with Cons.prems have "isl (f1_next_loop net urls le')" by simp
    from Cons.IH [OF this] False show ?thesis by simp
  qed
qed

lemma show_calendar_cached:
  assumes "ls_schedule_cache r = Some (ts, data)" and "now - ts \<le> day_ms" and "data \<noteq> []"
  shows "show_calendar now net r = r\<lparr>f1Races := data\<rparr>"
  using assms by (simp add: show_calendar_def init_f1Races_def open_calendar_def)

lemma show_calendar_result:
  assumes "f1Races (show_calendar now net r) \<noteq> []"
  shows "(\<exists>ts. ls_schedule_cache (show_calendar now net r)
               = Some (ts, f1Races (show_calendar now net r))) \<and>
         fetches (show_calendar now net r) \<le> Suc (fetches r)"
proof (cases "f1Races (init_f1Races now r) = []")
  case False
  then have eq: "show_calendar now net r = init_f1Races now r"
    by (simp add: show_calendar_def open_calendar_def)
  from False show ?thesis unfolding eq
    by (auto simp: init_f1Races_def split: option.splits if_splits)
next
  case True
  then have eq: "show_calendar now net r = loadF1Schedule now net (init_f1Races now r)"
    by (simp add: show_calendar_def open_calendar_def)
  show ?thesis
  proof (cases "f1_schedule net ''current''")
    case (Inl err)
    with True assms show ?thesis unfolding eq by (simp add: loadF1Schedule_def Let_def)
  next
    case (Inr races)
    then show ?thesis unfolding eq
      by (simp add: loadF1Schedule_def Let_def init_f1Races_def)
  qed
qed

subsection \<open>The rows a finish leaves alone\<close>

lemma select_update_row_other:
  assumes "j \<noteq> i" and "\<And>r. task_id (f r) = task_id r"
  shows "select_task (update_row i f w) j = select_task w j"
proof (cases "row_of (task_rows w) j")
  case None
  then show ?thesis using assms(2)
    by (simp add: select_task_row_of update_row_def row_of_set_row [unfolded set_row_def])
next
  case (Some t)
  then have "task_id t = j" by (rule row_of_Some [THEN conjunct1])
  with Some assms show ?thesis
    by (simp add: select_task_row_of update_row_def row_of_set_row [unfolded set_row_def])
qed

lemma finish_fields_eq:
  "finish_fields e now t t =
     t\<lparr>status := ''finish'', session_type := ''parc'', finished_at := Some now,
       points_base := basePoints (if truthy (points_session_type t)
                                  then the (points_session_type t) else session_type t),
       points_bonus := 0,
       points_penalty :=
         (if truthy (deadline t) \<and>
             (\<exists>dl. ymdToDate e (the (deadline t)) = Some dl \<and> 3 \<le> (now - dl) div 86400000)
          then - 5 else 0),
       points_total :=
         basePoints (if truthy (points_session_type t)
                     then the (points_session_type t) else session_type t) +
         (if truthy (deadline t) \<and>
             (\<exists>dl. ymdToDate e (the (deadline t)) = Some dl \<and> 3 \<le> (now - dl) div 86400000)
          then - 5 else 0)\<rparr>"
  by (auto simp: finish_fields_def isLateByDays_def Let_def split: option.splits)

lemma dnf_fields_eq:
  "dnf_fields now t =
     t\<lparr>status := ''dnf'', session_type := ''parc'', finished_at := Some now,
       points_base := 0, points_bonus := 0, points_penalty := - 5, points_total := - 5\<rparr>"
  by (simp add: dnf_fields_def Let_def)

lemma finish_others:
  "select_task w i = Some t \<Longrightarrow> tasks_finish e now i w = Inr w' \<Longrightarrow> j \<noteq> i \<Longrightarrow>
   select_task w' j = select_task w j"
  by (auto simp: tasks_finish_def select_task_clearNotif select_update_row_other
      finish_fields_simps)

lemma dnf_others:
  "select_task w i = Some t \<Longrightarrow> tasks_dnf e now i w = Inr w' \<Longrightarrow> j \<noteq> i \<Longrightarrow>
   select_task w' j = select_task w j"
  by (auto simp: tasks_dnf_def select_task_clearNotif select_update_row_other
      dnf_fields_simps)

subsection \<open>The scoring category along a history\<close>














section \<open>The claims\<close>

text \<open>
  C1, as the code has it. Once a task of a reachable state has status \<open>finish\<close> or
  \<open>dnf\<close>, it keeps a terminal status (for as long as the row exists) through every later
  history in which no \<^verbatim>\<open>tasks:update\<close> for this task carries a status field; when the later
  history has no \<^verbatim>\<open>tasks:finish\<close> and no \<^verbatim>\<open>tasks:dnf\<close> for the task either, the status is
  the very same. The lap button of the renderer always sends a status field and is not
  covered.
\<close>

theorem terminal_status_kept:
  assumes "select_task (run e pre empty_world) i = Some t"
    and "is_done (status t)"
    and "\<forall>(now, c) \<in> set post. \<forall>p. c = Update p \<longrightarrow> u_id p = i \<longrightarrow> u_status p = None"
    and "select_task (run e (pre @ post) empty_world) i = Some t'"
  shows "is_done (status t') \<and>
         ((\<forall>now. (now, Finish i) \<notin> set post \<and> (now, Dnf i) \<notin> set post)
            \<longrightarrow> status t' = status t)"
proof -
  let ?w = "run e pre empty_world"
  have row: "row_of (task_rows ?w) i = Some t" using assms(1) by (simp add: select_task_row_of)
  then have "t \<in> set (task_rows ?w)" "task_id t = i" by (simp_all add: row_of_Some)
  then have le: "i \<le> seq ?w" using reachable_ids_le_seq [of e pre] by auto
  have row': "row_of (task_rows (run e post ?w)) i = Some t'"
    using assms(4) by (simp add: select_task_row_of run_append)
  have "\<forall>u. row_of (task_rows (run e post ?w)) i = Some u \<longrightarrow> is_done (status u)"
    by (rule run_keeps_status [OF le _ assms(3)])
       (use row assms(2) in \<open>simp_all add: is_done_def\<close>)
  then have one: "is_done (status t')" using row' by simp
  have two: "status t' = status t"
    if nf: "\<forall>now. (now, Finish i) \<notin> set post \<and> (now, Dnf i) \<notin> set post"
  proof -
    have "\<forall>u. row_of (task_rows (run e post ?w)) i = Some u \<longrightarrow> status u = status t"
      by (rule run_keeps_status [OF le _ assms(3)]) (use row nf in simp_all)
    then show ?thesis using row' by simp
  qed
  from one two show ?thesis by blast
qed

theorem terminal_status_kept_witness:
  "is_done (status (the (select_task (run utc_env finished_history empty_world) 1))) \<and>
   status (the (select_task (run utc_env (finished_history @ later_history) empty_world) 1))
     = ''finish''"
proof -
  let ?t = "the (select_task (run utc_env finished_history empty_world) 1)"
  let ?t' = "the (select_task (run utc_env (finished_history @ later_history) empty_world) 1)"
  have h1: "select_task (run utc_env finished_history empty_world) 1 = Some ?t"
    by code_simp
  have h2: "is_done (status ?t)"
    by code_simp
  have h3: "\<forall>(now, c) \<in> set later_history. \<forall>p. c = Update p \<longrightarrow> u_id p = 1 \<longrightarrow> u_status p = None"
    by (simp add: later_history_def no_change_def)
  have h4: "select_task (run utc_env (finished_history @ later_history) empty_world) 1 = Some ?t'"
    by code_simp
  have h5: "\<forall>now. (now, Finish 1) \<notin> set later_history \<and> (now, Dnf 1) \<notin> set later_history"
    by (simp add: later_history_def)
  have h6: "status ?t = ''finish''"
    by code_simp
  from terminal_status_kept [OF h1 h2 h3 h4] h2 h5 h6 show ?thesis by simp
qed

text \<open>
  C1 as stated fails: the lap button on a finished task sends status \<open>progress\<close>, and
  \<^verbatim>\<open>tasks:update\<close> stores it.
\<close>

theorem terminal_status_counterexample:
  "map status (task_rows (run utc_env finished_history empty_world)) = [''finish''] \<and>
   map status (task_rows (run utc_env
      (finished_history @
       [(2, Update (incLap (the (select_task (run utc_env finished_history empty_world) 1))))])
      empty_world)) = [''progress'']"
  by code_simp

text \<open>
  C2, as the code has it. \<^verbatim>\<open>tasks:finish\<close> and \<^verbatim>\<open>tasks:dnf\<close> do not look at the status: on
  a task that is already terminal both succeed, and the row they leave is the old row
  with seven columns written anew, whatever they held: status, bucket (\<open>parc\<close>),
  \<open>finished_at\<close> (the clock of this call) and the four points fields, computed as for a
  first finish (base from the scoring category, bonus 0, penalty -5 when a deadline is
  set and at least 3 whole days have passed since its local midnight, else 0, total base
  plus penalty) or a first \<open>dnf\<close> (0, 0, -5, -5). Every other column of the row and every
  other row is as before.
\<close>

theorem finish_again_overwrites:
  assumes "select_task w i = Some t" and "is_done (status t)"
  shows "(\<exists>w'. tasks_finish e now i w = Inr w' \<and>
            select_task w' i =
              Some (t\<lparr>status := ''finish'', session_type := ''parc'', finished_at := Some now,
                      points_base := basePoints (if truthy (points_session_type t)
                                                 then the (points_session_type t)
                                                 else session_type t),
                      points_bonus := 0,
                      points_penalty :=
                        (if truthy (deadline t) \<and>
                            (\<exists>dl. ymdToDate e (the (deadline t)) = Some dl \<and>
                                  3 \<le> (now - dl) div 86400000)
                         then - 5 else 0),
                      points_total :=
                        basePoints (if truthy (points_session_type t)
                                    then the (points_session_type t) else session_type t) +
                        (if truthy (deadline t) \<and>
                            (\<exists>dl. ymdToDate e (the (deadline t)) = Some dl \<and>
                                  3 \<le> (now - dl) div 86400000)
                         then - 5 else 0)\<rparr>) \<and>
            (\<forall>j. j \<noteq> i \<longrightarrow> select_task w' j = select_task w j)) \<and>
         (\<exists>w'. tasks_dnf e now i w = Inr w' \<and>
            select_task w' i =
              Some (t\<lparr>status := ''dnf'', session_type := ''parc'', finished_at := Some now,
                      points_base := 0, points_bonus := 0, points_penalty := - 5,
                      points_total := - 5\<rparr>) \<and>
            (\<forall>j. j \<noteq> i \<longrightarrow> select_task w' j = select_task w j))"
proof
  from finish_row [OF assms(1), of e now] obtain w' where
    w': "tasks_finish e now i w = Inr w'" "select_task w' i = Some (finish_fields e now t t)"
    by blast
  have "\<forall>j. j \<noteq> i \<longrightarrow> select_task w' j = select_task w j"
    using finish_others [OF assms(1) w'(1)] by blast
  with w' show "\<exists>w'. tasks_finish e now i w = Inr w' \<and>
            select_task w' i =
              Some (t\<lparr>status := ''finish'', session_type := ''parc'', finished_at := Some now,
                      points_base := basePoints (if truthy (points_session_type t)
                                                 then the (points_session_type t)
                                                 else session_type t),
                      points_bonus := 0,
                      points_penalty :=
                        (if truthy (deadline t) \<and>
                            (\<exists>dl. ymdToDate e (the (deadline t)) = Some dl \<and>
                                  3 \<le> (now - dl) div 86400000)
                         then - 5 else 0),
                      points_total :=
                        basePoints (if truthy (points_session_type t)
                                    then the (points_session_type t) else session_type t) +
                        (if truthy (deadline t) \<and>
                            (\<exists>dl. ymdToDate e (the (deadline t)) = Some dl \<and>
                                  3 \<le> (now - dl) div 86400000)
                         then - 5 else 0)\<rparr>) \<and>
            (\<forall>j. j \<noteq> i \<longrightarrow> select_task w' j = select_task w j)"
    unfolding finish_fields_eq by blast
next
  from dnf_row [OF assms(1), of e now] obtain w' where
    w': "tasks_dnf e now i w = Inr w'" "select_task w' i = Some (dnf_fields now t)"
    by blast
  have "\<forall>j. j \<noteq> i \<longrightarrow> select_task w' j = select_task w j"
    using dnf_others [OF assms(1) w'(1)] by blast
  with w' show "\<exists>w'. tasks_dnf e now i w = Inr w' \<and>
            select_task w' i =
              Some (t\<lparr>status := ''dnf'', session_type := ''parc'', finished_at := Some now,
                      points_base := 0, points_bonus := 0, points_penalty := - 5,
                      points_total := - 5\<rparr>) \<and>
            (\<forall>j. j \<noteq> i \<longrightarrow> select_task w' j = select_task w j)"
    unfolding dnf_fields_eq by blast
qed

theorem finish_again_overwrites_witness:
  "is_done (status (the (select_task (run utc_env late_dnf_history empty_world) 1))) \<and>
   task_rows (step utc_env 1709510400000 (Finish 1) (run utc_env late_dnf_history empty_world)) =
     [\<lparr>task_id = 1, title = ''report'', session_type = ''parc'', status = ''finish'',
       laps_total = 1, laps_done = 0, created_at = 1709251200000,
       deadline = Some ''2024-03-01'', finished_at = Some 1709510400000,
       points_base = 25, points_bonus = 0, points_penalty = - 5, points_total = 20,
       points_session_type = Some ''race''\<rparr>,
      \<lparr>task_id = 2, title = ''mail'', session_type = ''pit'', status = ''start'',
       laps_total = 1, laps_done = 0, created_at = 1709251200001,
       deadline = None, finished_at = None,
       points_base = 0, points_bonus = 0, points_penalty = 0, points_total = 0,
       points_session_type = Some ''pit''\<rparr>]"
proof -
  let ?w = "run utc_env late_dnf_history empty_world"
  have h1: "select_task ?w 1 = Some (the (select_task ?w 1))" by code_simp
  have h2: "is_done (status (the (select_task ?w 1)))" by code_simp
  have h3: "task_rows (step utc_env 1709510400000 (Finish 1) ?w) =
     [\<lparr>task_id = 1, title = ''report'', session_type = ''parc'', status = ''finish'',
       laps_total = 1, laps_done = 0, created_at = 1709251200000,
       deadline = Some ''2024-03-01'', finished_at = Some 1709510400000,
       points_base = 25, points_bonus = 0, points_penalty = - 5, points_total = 20,
       points_session_type = Some ''race''\<rparr>,
      \<lparr>task_id = 2, title = ''mail'', session_type = ''pit'', status = ''start'',
       laps_total = 1, laps_done = 0, created_at = 1709251200001,
       deadline = None, finished_at = None,
       points_base = 0, points_bonus = 0, points_penalty = 0, points_total = 0,
       points_session_type = Some ''pit''\<rparr>]"
    by code_simp
  from finish_again_overwrites [OF h1 h2, of utc_env 1709510400000] h2 h3 show ?thesis by simp
qed

text \<open>
  C2 as stated fails: a task given up with \<open>dnf\<close> (total -5) and then finished is scored
  a second time (total 25) and gets a new \<open>finished_at\<close>.
\<close>

theorem finish_again_counterexample:
  "map (\<lambda>t. (status t, points_base t, points_bonus t, points_penalty t, points_total t,
             finished_at t))
     (task_rows (run utc_env dnf_history empty_world)) =
     [(''dnf'', 0, 0, - 5, - 5, Some 1)] \<and>
   \<not> isl (tasks_finish utc_env 2 1 (run utc_env dnf_history empty_world)) \<and>
   map (\<lambda>t. (status t, points_base t, points_bonus t, points_penalty t, points_total t,
             finished_at t))
     (task_rows (run utc_env (dnf_history @ [(2, Finish 1)]) empty_world)) =
     [(''finish'', 25, 0, 0, 25, Some 2)]"
  by code_simp

text \<open>
  C3. From a fresh install, after any history of requests every row has
  \<open>points_total = points_base + points_bonus + points_penalty\<close>, and a row whose id no
  \<^verbatim>\<open>tasks:finish\<close> and no \<^verbatim>\<open>tasks:dnf\<close> of the history names has all four fields zero.
\<close>

theorem points_total_is_sum:
  "\<forall>t \<in> set (task_rows (run e evs empty_world)).
     points_total t = points_base t + points_bonus t + points_penalty t \<and>
     ((\<forall>now. (now, Finish (task_id t)) \<notin> set evs \<and> (now, Dnf (task_id t)) \<notin> set evs) \<longrightarrow>
        points_base t = 0 \<and> points_bonus t = 0 \<and> points_penalty t = 0 \<and> points_total t = 0)"
proof (induction evs rule: rev_induct)
  case Nil
  show ?case by (simp add: run_Nil empty_world_def)
next
  case (snoc ev evs)
  obtain now c where ev: "ev = (now, c)" by (cases ev)
  let ?G = "\<lambda>hist (t::task). points_total t = points_base t + points_bonus t + points_penalty t \<and>
     ((\<forall>now. (now, Finish (task_id t)) \<notin> set hist \<and> (now, Dnf (task_id t)) \<notin> set hist) \<longrightarrow>
        points_base t = 0 \<and> points_bonus t = 0 \<and> points_penalty t = 0 \<and> points_total t = 0)"
  have IH: "\<forall>t \<in> set (task_rows (run e evs empty_world)). ?G (evs @ [ev]) t"
    using snoc.IH by auto
  have "\<forall>t \<in> set (task_rows (step e now c (run e evs empty_world))). ?G (evs @ [ev]) t"
  proof (rule step_points [OF IH])
    fix t :: task
    assume "points_base t = 0" "points_bonus t = 0" "points_penalty t = 0" "points_total t = 0"
    then show "?G (evs @ [ev]) t" by simp
  next
    fix t :: task and p cur assume "?G (evs @ [ev]) t"
    then show "?G (evs @ [ev]) (update_fields p cur t)" by (simp add: update_fields_simps)
  next
    fix t :: task and cur i assume "c = Finish i" "task_id t = i"
    then show "?G (evs @ [ev]) (finish_fields e now cur t)"
      unfolding ev by (auto simp: finish_fields_simps)
  next
    fix t :: task and i assume "c = Dnf i" "task_id t = i"
    then show "?G (evs @ [ev]) (dnf_fields now t)"
      unfolding ev by (auto simp: dnf_fields_simps)
  qed
  then show ?case unfolding ev run_snoc .
qed

theorem points_total_is_sum_witness:
  "map (\<lambda>t. (points_base t, points_bonus t, points_penalty t, points_total t))
     (task_rows (run utc_env scored_history empty_world)) =
   [(0, 0, 0, 0), (8, 0, - 5, 3), (0, 0, - 5, - 5)]"
proof -
  have "map (\<lambda>t. (points_base t, points_bonus t, points_penalty t, points_total t))
     (task_rows (run utc_env scored_history empty_world)) =
   [(0, 0, 0, 0), (8, 0, - 5, 3), (0, 0, - 5, - 5)]"
    by code_simp
  with points_total_is_sum [of utc_env scored_history] show ?thesis by simp
qed

text \<open>
  C4, as the code has it. On \<^verbatim>\<open>tasks:finish\<close> of a task that is not terminal the base points
  are \<open>basePoints\<close> of the scoring category, a table fixed in the handler's file (race 25,
  sprint 8, qualifying 3, pit 2, practice 1, parc 1, any other label 0); the penalty is
  -5 when a deadline is set and the whole days from local midnight of the deadline to the
  finish are at least 3, and 0 otherwise; the bonus is 0 and the total is base plus
  penalty. On \<^verbatim>\<open>tasks:dnf\<close> the fields are 0, 0, -5 and -5. No \<open>PointsRules\<close> value is read.
\<close>

theorem scoring_uses_fixed_rules:
  assumes "select_task w i = Some t" and "\<not> is_done (status t)"
  shows "(\<exists>w' t'. tasks_finish e now i w = Inr w' \<and> select_task w' i = Some t' \<and>
            status t' = ''finish'' \<and>
            points_base t' = basePoints (if truthy (points_session_type t)
                                         then the (points_session_type t) else session_type t) \<and>
            points_penalty t' =
              (if truthy (deadline t) \<and>
                  (\<exists>dl. ymdToDate e (the (deadline t)) = Some dl \<and>
                        3 \<le> (now - dl) div 86400000)
               then - 5 else 0) \<and>
            points_bonus t' = 0 \<and> points_total t' = points_base t' + points_penalty t') \<and>
         (\<exists>w' t'. tasks_dnf e now i w = Inr w' \<and> select_task w' i = Some t' \<and>
            status t' = ''dnf'' \<and>
            points_base t' = 0 \<and> points_bonus t' = 0 \<and> points_penalty t' = - 5 \<and>
            points_total t' = - 5) \<and>
         basePoints ''race'' = 25 \<and> basePoints ''sprint'' = 8 \<and>
         basePoints ''qualifying'' = 3 \<and> basePoints ''pit'' = 2 \<and>
         basePoints ''practice'' = 1 \<and> basePoints ''parc'' = 1 \<and>
         (s \<notin> set [''race'', ''sprint'', ''qualifying'', ''pit'', ''practice'', ''parc''] \<longrightarrow>
            basePoints s = 0)"
proof (intro conjI)
  from finish_row [OF assms(1), of e now] obtain w' where
    "tasks_finish e now i w = Inr w'" "select_task w' i = Some (finish_fields e now t t)"
    by blast
  then show "\<exists>w' t'. tasks_finish e now i w = Inr w' \<and> select_task w' i = Some t' \<and>
            status t' = ''finish'' \<and>
            points_base t' = basePoints (if truthy (points_session_type t)
                                         then the (points_session_type t) else session_type t) \<and>
            points_penalty t' =
              (if truthy (deadline t) \<and>
                  (\<exists>dl. ymdToDate e (the (deadline t)) = Some dl \<and>
                        3 \<le> (now - dl) div 86400000)
               then - 5 else 0) \<and>
            points_bonus t' = 0 \<and> points_total t' = points_base t' + points_penalty t'"
    by (simp add: finish_fields_simps penalty_finish_fields)
next
  from dnf_row [OF assms(1), of e now] obtain w' where
    "tasks_dnf e now i w = Inr w'" "select_task w' i = Some (dnf_fields now t)"
    by blast
  then show "\<exists>w' t'. tasks_dnf e now i w = Inr w' \<and> select_task w' i = Some t' \<and>
            status t' = ''dnf'' \<and>
            points_base t' = 0 \<and> points_bonus t' = 0 \<and> points_penalty t' = - 5 \<and>
            points_total t' = - 5"
    by (simp add: dnf_fields_simps)
qed (simp_all add: basePoints_def)

theorem scoring_uses_fixed_rules_witness:
  "\<not> is_done (status (the (select_task (run utc_env sprint_history empty_world) 1))) \<and>
   map (\<lambda>t. (status t, points_base t, points_bonus t, points_penalty t, points_total t))
     (task_rows (step utc_env 1709510400000 (Finish 1) (run utc_env sprint_history empty_world)))
     = [(''finish'', 8, 0, - 5, 3)] \<and>
   map (\<lambda>t. (status t, points_base t, points_bonus t, points_penalty t, points_total t))
     (task_rows (step utc_env 1709510400000 (Dnf 1) (run utc_env sprint_history empty_world)))
     = [(''dnf'', 0, 0, - 5, - 5)] \<and>
   basePoints ''coffee'' = 0"
proof -
  let ?w = "run utc_env sprint_history empty_world"
  have h1: "select_task ?w 1 = Some (the (select_task ?w 1))" by code_simp
  have h2: "\<not> is_done (status (the (select_task ?w 1)))" by code_simp
  have h3: "map (\<lambda>t. (status t, points_base t, points_bonus t, points_penalty t, points_total t))
     (task_rows (step utc_env 1709510400000 (Finish 1) ?w)) = [(''finish'', 8, 0, - 5, 3)]"
    by code_simp
  have h4: "map (\<lambda>t. (status t, points_base t, points_bonus t, points_penalty t, points_total t))
     (task_rows (step utc_env 1709510400000 (Dnf 1) ?w)) = [(''dnf'', 0, 0, - 5, - 5)]"
    by code_simp
  have "''coffee'' \<notin> set [''race'', ''sprint'', ''qualifying'', ''pit'', ''practice'', ''parc'']"
    by simp
  with scoring_uses_fixed_rules [OF h1 h2, of utc_env 1709510400000 "''coffee''"]
  have h5: "basePoints ''coffee'' = 0" by blast
  from h2 h3 h4 h5 show ?thesis by (intro conjI)
qed

text \<open>
  C4 as stated fails: the rules of the renderer give -3 for \<open>dnf\<close> and 5 for a race, the
  handlers award -5 and 25.
\<close>

theorem scoring_rules_counterexample:
  "map points_penalty (task_rows (run utc_env dnf_history empty_world)) = [- 5] \<and>
   dnfPenaltyPoints DEFAULT_POINTS_RULES = - 3 \<and>
   map points_base (task_rows (run utc_env finished_history empty_world)) = [25] \<and>
   map (\<lambda>t. rule_base DEFAULT_POINTS_RULES (the (points_session_type t)))
     (task_rows (run utc_env finished_history empty_world)) = [5]"
  by code_simp




text \<open>
  C6, as the code has it. After any history from a fresh install no two pending timers
  belong to the same task. When the history contains a \<^verbatim>\<open>tasks:finish\<close>, \<^verbatim>\<open>tasks:dnf\<close> or
  \<^verbatim>\<open>tasks:delete\<close> of a task that exists, and no later \<^verbatim>\<open>tasks:update\<close> of that task carries
  a status that is not terminal, then no timer is pending for the task at the end and
  no notification for it has been shown since that request.
\<close>

theorem one_timer_and_disarmed:
  "distinct (map for_task (pending (run e evs empty_world))) \<and>
   (\<forall>pre now c post i.
      evs = pre @ (now, c) # post \<and> (c = Finish i \<or> c = Dnf i \<or> c = Delete i) \<and>
      select_task (run e pre empty_world) i \<noteq> None \<and>
      (\<forall>(now', c') \<in> set post. \<forall>p. c' = Update p \<longrightarrow> u_id p = i \<longrightarrow>
           (case u_status p of None \<Rightarrow> True | Some s \<Rightarrow> is_done s))
      \<longrightarrow> (\<forall>t \<in> set (pending (run e evs empty_world)). for_task t \<noteq> i) \<and>
          (\<exists>new. shown (run e evs empty_world) = shown (run e pre empty_world) @ new \<and>
                 (\<forall>x \<in> set new. fst x \<noteq> i)))"
proof (rule conjI)
  show "distinct (map for_task (pending (run e evs empty_world)))"
    by (rule timers_ok_one_per_task) (rule reachable_ok)
next
  show "\<forall>pre now c post i.
      evs = pre @ (now, c) # post \<and> (c = Finish i \<or> c = Dnf i \<or> c = Delete i) \<and>
      select_task (run e pre empty_world) i \<noteq> None \<and>
      (\<forall>(now', c') \<in> set post. \<forall>p. c' = Update p \<longrightarrow> u_id p = i \<longrightarrow>
           (case u_status p of None \<Rightarrow> True | Some s \<Rightarrow> is_done s))
      \<longrightarrow> (\<forall>t \<in> set (pending (run e evs empty_world)). for_task t \<noteq> i) \<and>
          (\<exists>new. shown (run e evs empty_world) = shown (run e pre empty_world) @ new \<and>
                 (\<forall>x \<in> set new. fst x \<noteq> i))"
  proof (intro allI impI)
  fix pre now c post i
  assume a: "evs = pre @ (now, c) # post \<and> (c = Finish i \<or> c = Dnf i \<or> c = Delete i) \<and>
      select_task (run e pre empty_world) i \<noteq> None \<and>
      (\<forall>(now', c') \<in> set post. \<forall>p. c' = Update p \<longrightarrow> u_id p = i \<longrightarrow>
           (case u_status p of None \<Rightarrow> True | Some s \<Rightarrow> is_done s))"
  let ?w = "run e pre empty_world"
  have d: "disarmed i (shown ?w) (step e now c ?w)"
    by (rule terminal_request_disarms [OF reachable_ok reachable_ids_le_seq]) (use a in simp_all)
  have "disarmed i (shown ?w) (run e post (step e now c ?w))"
    by (rule run_disarmed [OF d]) (use a in \<open>auto simp: harmless_def\<close>)
  moreover have "run e evs empty_world = run e post (step e now c ?w)"
    using a by (simp add: run_append run_Cons)
  ultimately have "disarmed i (shown ?w) (run e evs empty_world)" by simp
  then show "(\<forall>t \<in> set (pending (run e evs empty_world)). for_task t \<noteq> i) \<and>
          (\<exists>new. shown (run e evs empty_world) = shown (run e pre empty_world) @ new \<and>
                 (\<forall>x \<in> set new. fst x \<noteq> i))"
    by (simp add: disarmed_def)
  qed
qed

theorem one_timer_and_disarmed_witness:
  "map for_task (pending (run utc_env armed_history empty_world)) = [1, 2] \<and>
   map for_task (pending (run utc_env (armed_history @ [(1709251200002, Finish 1)]) empty_world)) = [2] \<and>
   map for_task (pending (run utc_env (armed_history @ (1709251200002, Finish 1) # quiet_history)
      empty_world)) = [] \<and>
   shown (run utc_env (armed_history @ (1709251200002, Finish 1) # quiet_history) empty_world)
     = [(2, ''mail'')]"
proof -
  let ?evs = "armed_history @ (1709251200002, Finish 1) # quiet_history"
  have h1: "select_task (run utc_env armed_history empty_world) 1 \<noteq> None"
    by code_simp
  have h2: "\<forall>(now', c') \<in> set quiet_history. \<forall>p. c' = Update p \<longrightarrow> u_id p = 1 \<longrightarrow>
           (case u_status p of None \<Rightarrow> True | Some s \<Rightarrow> is_done s)"
    by (simp add: quiet_history_def no_change_def)
  have h: "?evs = armed_history @ (1709251200002, Finish 1) # quiet_history \<and>
           (Finish 1 = Finish 1 \<or> Finish 1 = Dnf 1 \<or> Finish 1 = Delete 1) \<and>
           select_task (run utc_env armed_history empty_world) 1 \<noteq> None \<and>
           (\<forall>(now', c') \<in> set quiet_history. \<forall>p. c' = Update p \<longrightarrow> u_id p = 1 \<longrightarrow>
              (case u_status p of None \<Rightarrow> True | Some s \<Rightarrow> is_done s))"
    using h1 h2 by simp
  have a: "map for_task (pending (run utc_env armed_history empty_world)) = [1, 2]"
    by code_simp
  have b: "map for_task (pending (run utc_env (armed_history @ [(1709251200002, Finish 1)]) empty_world)) = [2]"
    by code_simp
  have c: "map for_task (pending (run utc_env ?evs empty_world)) = []"
    by code_simp
  have d: "shown (run utc_env ?evs empty_world) = [(2, ''mail'')]"
    by code_simp
  from one_timer_and_disarmed [of utc_env ?evs, THEN conjunct2, rule_format, OF h] a b c d
  show ?thesis by simp
qed

text \<open>
  C6 as stated fails: the lap button on a finished task with a deadline ahead stores
  status \<open>progress\<close>, the update arms a timer again, and the notification is shown.
\<close>

theorem disarmed_counterexample:
  "map for_task (pending (run utc_env deadline_history empty_world)) = [] \<and>
   shown (run utc_env
      (deadline_history @
       [(1709251200002, Update (incLap (the (select_task
               (run utc_env deadline_history empty_world) 1)))),
        (1709287200000, Fire 1)])
      empty_world) = [(1, ''slides'')]"
  by code_simp

text \<open>
  C7. \<^verbatim>\<open>tasks:create\<close> refuses a title that is empty after trimming, but \<^verbatim>\<open>tasks:update\<close>
  trims the title of its payload and stores it unchecked: a title of three blanks leaves
  the task with the empty title.
\<close>

theorem update_stores_empty_title:
  "map title (task_rows (run utc_env
      [(0, Create (new_task ''report'' ''race'' None)),
       (1, Update ((no_change 1)\<lparr>u_title := Some ''   ''\<rparr>))] empty_world)) = [[]]"
  by code_simp

text \<open>
  C8, as the code has it. \<^verbatim>\<open>f1:next\<close> asks its two endpoints in order: the first whose
  body has at least one race gives the result, a failed request or an empty list moves
  on to the next, and the handler throws exactly when no endpoint has a race; the
  renderer then records the error and leaves its cache and the value shown untouched.
  \<^verbatim>\<open>f1:schedule\<close> asks one endpoint only: it throws exactly when that request fails, and
  then the renderer leaves cache and list untouched; any body, an empty list of races
  included, is a successful answer.
\<close>

theorem endpoints_in_order:
  "(\<forall>gp. f1_next net = Inr gp \<longleftrightarrow>
      (\<exists>pre u post race rs. endpoints = pre @ u # post \<and>
         (\<forall>v \<in> set pre. \<not> has_fixture (net v)) \<and>
         net u = Json (race # rs) \<and> gp = toNextGp race)) \<and>
   (isl (f1_next net) \<longleftrightarrow> (\<forall>u \<in> set endpoints. \<not> has_fixture (net u))) \<and>
   (isl (f1_next net) \<longrightarrow>
      ls_gp_cache (fetchNextGp now net r) = ls_gp_cache r \<and>
      nextGp (fetchNextGp now net r) = nextGp r \<and>
      gpError (fetchNextGp now net r) \<noteq> None) \<and>
   (isl (f1_schedule net season) \<longleftrightarrow> net (schedule_url season) = Failed) \<and>
   (\<forall>races. net (schedule_url season) = Json races \<longrightarrow>
      f1_schedule net season = Inr (map toF1Race races)) \<and>
   (isl (f1_schedule net ''current'') \<longrightarrow>
      ls_schedule_cache (loadF1Schedule now net r) = ls_schedule_cache r \<and>
      f1Races (loadF1Schedule now net r) = f1Races r \<and>
      f1Err (loadF1Schedule now net r) \<noteq> None)"
proof (intro conjI)
  show "\<forall>gp. f1_next net = Inr gp \<longleftrightarrow>
      (\<exists>pre u post race rs. endpoints = pre @ u # post \<and>
         (\<forall>v \<in> set pre. \<not> has_fixture (net v)) \<and>
         net u = Json (race # rs) \<and> gp = toNextGp race)"
  proof (intro allI iffI)
    fix gp assume "f1_next net = Inr gp"
    then show "\<exists>pre u post race rs. endpoints = pre @ u # post \<and>
         (\<forall>v \<in> set pre. \<not> has_fixture (net v)) \<and>
         net u = Json (race # rs) \<and> gp = toNextGp race"
      unfolding f1_next_def by (rule loop_Inr_split)
  next
    fix gp assume "\<exists>pre u post race rs. endpoints = pre @ u # post \<and>
         (\<forall>v \<in> set pre. \<not> has_fixture (net v)) \<and>
         net u = Json (race # rs) \<and> gp = toNextGp race"
    then obtain pre u post race rs where p: "endpoints = pre @ u # post"
      "\<forall>v \<in> set pre. \<not> has_fixture (net v)" "net u = Json (race # rs)" "gp = toNextGp race"
      by blast
    show "f1_next net = Inr gp"
      unfolding f1_next_def p(1) p(4) by (rule loop_first_good [OF p(2) p(3)])
  qed
next
  show "isl (f1_next net) \<longleftrightarrow> (\<forall>u \<in> set endpoints. \<not> has_fixture (net u))"
    unfolding f1_next_def using loop_Inl_all_fail loop_all_fail by blast
next
  show "isl (f1_next net) \<longrightarrow>
      ls_gp_cache (fetchNextGp now net r) = ls_gp_cache r \<and>
      nextGp (fetchNextGp now net r) = nextGp r \<and>
      gpError (fetchNextGp now net r) \<noteq> None"
    by (cases "f1_next net") (simp_all add: fetchNextGp_def Let_def)
next
  show "isl (f1_schedule net season) \<longleftrightarrow> net (schedule_url season) = Failed"
    by (simp add: f1_schedule_def split: response.splits)
next
  show "\<forall>races. net (schedule_url season) = Json races \<longrightarrow>
      f1_schedule net season = Inr (map toF1Race races)"
    by (simp add: f1_schedule_def)
next
  show "isl (f1_schedule net ''current'') \<longrightarrow>
      ls_schedule_cache (loadF1Schedule now net r) = ls_schedule_cache r \<and>
      f1Races (loadF1Schedule now net r) = f1Races r \<and>
      f1Err (loadF1Schedule now net r) \<noteq> None"
    by (cases "f1_schedule net ''current''") (simp_all add: loadF1Schedule_def Let_def)
qed

theorem endpoints_in_order_witness:
  "f1_next feed_second = Inr (toNextGp baku) \<and>
   isl (f1_next feed_down) \<and>
   ls_gp_cache (fetchNextGp 1000 feed_down cached_window) = Some (0, toNextGp monza) \<and>
   isl (f1_schedule feed_down ''current'') \<and>
   f1_schedule feed_empty ''current'' = Inr [] \<and>
   ls_schedule_cache (loadF1Schedule 1000 feed_down cached_window) = Some (0, [toF1Race monza])"
proof -
  have a: "endpoints = [''https://api.jolpi.ca/ergast/f1/current/next.json''] @
             ''https://ergast.com/api/f1/current/next.json'' # []"
    by (simp add: endpoints_def)
  have b: "\<forall>v \<in> set [''https://api.jolpi.ca/ergast/f1/current/next.json''].
             \<not> has_fixture (feed_second v)"
    by (simp add: has_fixture_def feed_second_def)
  have c: "feed_second ''https://ergast.com/api/f1/current/next.json'' = Json (baku # [])"
    by (simp add: feed_second_def)
  have d: "\<forall>u \<in> set endpoints. \<not> has_fixture (feed_down u)"
    by (simp add: has_fixture_def feed_down_def)
  have e: "feed_down (schedule_url ''current'') = Failed"
    by (simp add: feed_down_def)
  have f: "feed_empty (schedule_url ''current'') = Json []"
    by (simp add: feed_empty_def)
  have g: "ls_gp_cache cached_window = Some (0, toNextGp monza)"
    "ls_schedule_cache cached_window = Some (0, [toF1Race monza])"
    by (simp_all add: cached_window_def)
  note t1 = endpoints_in_order [of feed_second 1000 cached_window "''current''"]
  note t2 = endpoints_in_order [of feed_down 1000 cached_window "''current''"]
  note t3 = endpoints_in_order [of feed_empty 1000 cached_window "''current''"]
  have 1: "f1_next feed_second = Inr (toNextGp baku)"
    using t1 a b c by blast
  have 2: "isl (f1_next feed_down)" using t2 d by blast
  have 3: "ls_gp_cache (fetchNextGp 1000 feed_down cached_window) = Some (0, toNextGp monza)"
    using t2 2 g by simp
  have 4: "isl (f1_schedule feed_down ''current'')" using t2 e by blast
  have 5: "f1_schedule feed_empty ''current'' = Inr []" using t3 f by simp
  have 6: "ls_schedule_cache (loadF1Schedule 1000 feed_down cached_window)
             = Some (0, [toF1Race monza])"
    using t2 4 g by simp
  from 1 2 3 4 5 6 show ?thesis by blast
qed

text \<open>
  C8 as stated fails for the schedule: an empty answer is not a failure, no other
  endpoint is tried, and the renderer overwrites its cache entry with the empty list.
\<close>

theorem empty_schedule_counterexample:
  "f1_schedule feed_empty ''current'' = Inr [] \<and>
   ls_schedule_cache cached_window = Some (0, [toF1Race monza]) \<and>
   ls_schedule_cache (loadF1Schedule (2 * day_ms) feed_empty cached_window)
     = Some (2 * day_ms, []) \<and>
   f1Err (loadF1Schedule (2 * day_ms) feed_empty cached_window) = None"
  by code_simp

text \<open>
  C9, as the code has it. A window that mounts while the next-race entry is at most 24
  hours old shows the entry and sends no request. The calendar page of a window that
  mounts while the schedule entry is at most 24 hours old and holds at least one race
  shows the entry and sends no request. Hence, when the calendar page has shown a list
  that is not empty, showing it again while the entry is at most 24 hours old changes
  nothing, and the first showing has sent at most one request.
\<close>

theorem fresh_cache_no_fetch:
  "(\<forall>ts gp. ls_gp_cache r = Some (ts, gp) \<and> now - ts \<le> day_ms \<longrightarrow>
       mount_gp now net r = r\<lparr>nextGp := Some gp\<rparr>) \<and>
   (\<forall>ts data. ls_schedule_cache r = Some (ts, data) \<and> now - ts \<le> day_ms \<and> data \<noteq> [] \<longrightarrow>
       show_calendar now net r = r\<lparr>f1Races := data\<rparr>) \<and>
   (\<forall>ts data. ls_schedule_cache (show_calendar now net r) = Some (ts, data) \<and>
       f1Races (show_calendar now net r) \<noteq> [] \<and> later - ts \<le> day_ms \<longrightarrow>
       show_calendar later net' (show_calendar now net r) = show_calendar now net r \<and>
       fetches (show_calendar now net r) \<le> Suc (fetches r))"
proof (intro conjI allI impI)
  fix ts gp assume "ls_gp_cache r = Some (ts, gp) \<and> now - ts \<le> day_ms"
  then show "mount_gp now net r = r\<lparr>nextGp := Some gp\<rparr>"
    by (simp add: mount_gp_def loadF1Cache_def)
next
  fix ts data
  assume "ls_schedule_cache r = Some (ts, data) \<and> now - ts \<le> day_ms \<and> data \<noteq> []"
  then show "show_calendar now net r = r\<lparr>f1Races := data\<rparr>"
    by (simp add: show_calendar_cached)
next
  fix ts data
  let ?r1 = "show_calendar now net r"
  assume a: "ls_schedule_cache ?r1 = Some (ts, data) \<and> f1Races ?r1 \<noteq> [] \<and> later - ts \<le> day_ms"
  from a have a1: "ls_schedule_cache ?r1 = Some (ts, data)" and a2: "f1Races ?r1 \<noteq> []"
    and a3: "later - ts \<le> day_ms"
    by blast+
  from show_calendar_result [of now net r] a1 a2 have d: "data = f1Races ?r1" by auto
  have "data \<noteq> []" using a2 d by simp
  with a1 a3 have "show_calendar later net' ?r1 = ?r1\<lparr>f1Races := data\<rparr>"
    by (rule show_calendar_cached)
  then show "show_calendar later net' ?r1 = ?r1" using d by simp
next
  fix ts data
  let ?r1 = "show_calendar now net r"
  assume a: "ls_schedule_cache ?r1 = Some (ts, data) \<and> f1Races ?r1 \<noteq> [] \<and> later - ts \<le> day_ms"
  from show_calendar_result [of now net r] a show "fetches ?r1 \<le> Suc (fetches r)" by blast
qed

theorem fresh_cache_no_fetch_witness:
  "mount_gp 1000 feed_down cached_window = cached_window\<lparr>nextGp := Some (toNextGp monza)\<rparr> \<and>
   show_calendar 1000 feed_down cached_window = cached_window\<lparr>f1Races := [toF1Race monza]\<rparr> \<and>
   show_calendar day_ms feed_down (show_calendar 0 feed_up new_window)
     = show_calendar 0 feed_up new_window \<and>
   fetches (show_calendar 0 feed_up new_window) = 1"
proof -
  note t1 = fresh_cache_no_fetch [of cached_window 1000 feed_down day_ms feed_down]
  note t2 = fresh_cache_no_fetch [of new_window 0 feed_up day_ms feed_down]
  have a: "ls_gp_cache cached_window = Some (0, toNextGp monza) \<and> 1000 - 0 \<le> day_ms"
    by (simp add: cached_window_def day_ms_def)
  have b: "ls_schedule_cache cached_window = Some (0, [toF1Race monza]) \<and> 1000 - 0 \<le> day_ms \<and>
           [toF1Race monza] \<noteq> []"
    by (simp add: cached_window_def day_ms_def)
  have c: "ls_schedule_cache (show_calendar 0 feed_up new_window)
             = Some (0, [toF1Race monza, toF1Race baku]) \<and>
           f1Races (show_calendar 0 feed_up new_window) \<noteq> [] \<and> day_ms - 0 \<le> day_ms"
    by (simp add: show_calendar_def init_f1Races_def open_calendar_def loadF1Schedule_def
        f1_schedule_def feed_up_def new_window_def Let_def)
  have d: "fetches (show_calendar 0 feed_up new_window) = 1"
    by (simp add: show_calendar_def init_f1Races_def open_calendar_def loadF1Schedule_def
        f1_schedule_def feed_up_def new_window_def Let_def)
  from t1 a have 1: "mount_gp 1000 feed_down cached_window
                       = cached_window\<lparr>nextGp := Some (toNextGp monza)\<rparr>"
    by blast
  from t1 b have 2: "show_calendar 1000 feed_down cached_window
                       = cached_window\<lparr>f1Races := [toF1Race monza]\<rparr>"
    by blast
  from t2 c have 3: "show_calendar day_ms feed_down (show_calendar 0 feed_up new_window)
                       = show_calendar 0 feed_up new_window"
    by blast
  from 1 2 3 d show ?thesis by blast
qed

text \<open>
  C9 as stated fails: an entry that holds the empty list, however fresh, counts as no
  list, and the calendar page asks the network again.
\<close>

theorem fresh_empty_entry_counterexample:
  "ls_schedule_cache (show_calendar 0 feed_empty new_window) = Some (0, []) \<and>
   fetches (show_calendar 0 feed_empty new_window) = 1 \<and>
   f1Races (show_calendar 0 feed_empty new_window) = [] \<and>
   fetches (show_calendar 1000 feed_up (show_calendar 0 feed_empty new_window)) = 2 \<and>
   f1Races (show_calendar 1000 feed_up (show_calendar 0 feed_empty new_window))
     = [toF1Race monza, toF1Race baku]"
  by code_simp

text \<open>
  C10. \<^verbatim>\<open>tasks:update\<close> clamps \<open>laps_done\<close> against \<open>laps_total\<close> only when the payload
  carries \<open>laps_done\<close>: lowering \<open>laps_total\<close> alone, from 10 to 5 with 8 laps done, leaves
  \<open>laps_done\<close> above \<open>laps_total\<close>.
\<close>

theorem update_shrinks_laps_total:
  "map (\<lambda>t. (laps_total t, laps_done t)) (task_rows (run utc_env
      [(0, Create ((new_task ''report'' ''race'' None)
                     \<lparr>c_laps_total := Some (Fin 10), c_laps_done := Some (Fin 8)\<rparr>))]
      empty_world)) = [(10, 8)] \<and>
   map (\<lambda>t. (laps_total t, laps_done t)) (task_rows (run utc_env
      [(0, Create ((new_task ''report'' ''race'' None)
                     \<lparr>c_laps_total := Some (Fin 10), c_laps_done := Some (Fin 8)\<rparr>)),
       (1, Update ((no_change 1)\<lparr>u_laps_total := Some (Fin 5)\<rparr>))] empty_world)) = [(5, 8)]"
  by code_simp

end
